theory Spec2Isabelle
  imports Main
begin

section \<open>Values exchanged with the collaborators\<close>

text \<open>
  Messages, expectations and captured values are JavaScript values of JSON shape.
  \<open>undefined\<close> (an absent field) is \<open>None\<close> of an option type.
\<close>

datatype json =
    JNull
  | JBool bool
  | JNum int
  | JStr string
  | JArr "json list"
  | JObj "(string \<times> json) list"

text \<open>JavaScript truthiness, as tested by \<open>&&\<close>, \<open>||\<close> and \<open>!\<close>.\<close>

fun truthy :: "json option \<Rightarrow> bool" where
  "truthy None = False"
| "truthy (Some JNull) = False"
| "truthy (Some (JBool b)) = b"
| "truthy (Some (JNum n)) = (n \<noteq> 0)"
| "truthy (Some (JStr s)) = (s \<noteq> [])"
| "truthy (Some (JArr xs)) = True"
| "truthy (Some (JObj kvs)) = True"

text \<open>
  An error value handed to a callback: either a plain string (\<open>'data is not valid'\<close>) or an
  \<open>Error\<close> object with a message (\<open>new Error('Failed match')\<close>).
\<close>

datatype err = ErrString string | ErrObject string

text \<open>One expected reply: \<open>{channel, data, capture, match}\<close>.\<close>

record responseSpec =
  rs_channel :: "string option"
  rs_data :: "json option"
  rs_capture :: "json option"
  rs_match :: "json option"

text \<open>The scenario context: \<open>vars\<close>, \<open>sockets\<close> (namespace to client handle),
  \<open>_successCount\<close> and \<open>_uid\<close>.\<close>

record scenarioContext =
  vars :: "string \<rightharpoonup> json"
  sockets :: "string \<rightharpoonup> nat"
  successCount :: int
  uid :: string

text \<open>What \<open>engineUtil.captureOrMatch\<close> hands to its continuation: \<open>result.matches\<close> and
  \<open>result.captures\<close>, objects iterated in key order, hence association lists.\<close>

record matchResult =
  success :: bool
  expected :: "json option"
  got :: "json option"
  expression :: "json option"

record cmResult =
  matches :: "(string \<times> matchResult) list"
  captures :: "(string \<times> json) list"

text \<open>
  The collaborators that are not part of this engine are parameters of the model:
  \<open>deep-equal\<close>, \<open>JSON.stringify\<close>, \<open>engineUtil.template\<close> and
  \<open>engineUtil.captureOrMatch\<close>. The last one calls its continuation once, with an error or
  with a result; it receives the context to render templates and returns the captured values
  instead of storing them.
\<close>

record ext =
  deepEqual :: "json \<Rightarrow> json \<Rightarrow> bool"
  stringify :: "json \<Rightarrow> string"
  template :: "json option \<Rightarrow> scenarioContext \<Rightarrow> json option"
  templateStr :: "string option \<Rightarrow> scenarioContext \<Rightarrow> string option"
  captureOrMatch :: "responseSpec \<Rightarrow> string \<Rightarrow> scenarioContext \<Rightarrow> err + cmResult"

text \<open>Notifications sent through the event emitter \<open>ee\<close>.\<close>

datatype notification =
    Started
  | Request
  | Response int int string
  | Error err
  | Match bool "json option" "json option" "json option"

section \<open>processResponse\<close>

text \<open>
  \<open>processResponse(ee, data, response, context, callback)\<close> calls \<open>callback\<close> exactly once
  on every path, so the model returns what the callback receives, \<open>(err, context)\<close>, together
  with the notifications emitted before the call.
\<close>

definition dataInvalid :: "ext \<Rightarrow> json \<Rightarrow> responseSpec \<Rightarrow> bool" where
  "dataInvalid x d response =
     (case rs_data response of
        None \<Rightarrow> False
      | Some e \<Rightarrow> truthy (Some e) \<and> \<not> deepEqual x d e)"

definition mergeCaptures :: "(string \<rightharpoonup> json) \<Rightarrow> (string \<times> json) list \<Rightarrow> (string \<rightharpoonup> json)" where
  "mergeCaptures m kvs = foldl (\<lambda>acc kv. acc(fst kv \<mapsto> snd kv)) m kvs"

definition matchEvents :: "(string \<times> matchResult) list \<Rightarrow> notification list" where
  "matchEvents ms = map (\<lambda>kv. Match (success (snd kv)) (expected (snd kv)) (got (snd kv))
                                   (expression (snd kv))) ms"

definition processResponse ::
  "ext \<Rightarrow> json \<Rightarrow> responseSpec \<Rightarrow> scenarioContext \<Rightarrow> err option \<times> scenarioContext \<times> notification list" where
  "processResponse x d response ctx =
     (if dataInvalid x d response then
        (Some (ErrString ''data is not valid''), ctx, [Error (ErrString ''data is not valid'')])
      else if \<not> truthy (rs_capture response) \<and> \<not> truthy (rs_match response) then
        (None, ctx, [])
      else
        (let body = stringify x d in
         case captureOrMatch x response body ctx of
           Inl e \<Rightarrow> (Some e, ctx, [Error e])
         | Inr result \<Rightarrow>
             (let failedMatches = filter (\<lambda>kv. \<not> success (snd kv)) (matches result) in
              if length failedMatches > 0 then
                (Some (ErrObject ''Failed match''), ctx, [Error (ErrString ''Failed match'')])
              else
                (None,
                 ctx\<lparr>vars := (mergeCaptures (vars ctx) (captures result))(''$'' \<mapsto> JStr body),
                      successCount := successCount ctx + 1\<rparr>,
                 matchEvents (matches result)))))"

section \<open>Scenario specification and configuration\<close>

text \<open>
  \<open>emit.response\<close> is absent, one object or an array. \<open>emit_timeout\<close> is the step-level
  timeout that the specification's data model lists for an emit step; no line of the engine
  reads it.
\<close>

datatype responseReq = NoResponse | OneResponse responseSpec | ManyResponses "responseSpec list"

record emitSpec =
  emit_namespace :: "string option"
  emit_channel :: "string option"
  emit_data :: "json option"
  emit_response :: responseReq
  emit_acknowledge :: "responseSpec option"
  emit_beforeResponse :: "string option"
  emit_timeout :: "int option"

record requestSpec =
  think :: "json option"
  emit :: "emitSpec option"

text \<open>
  A \<open>beforeResponse\<close> hook is called as \<open>processFunc(requestSpec, ee, data, responses[index],
  context)\<close>; the model keeps the three arguments that vary and the truthiness of the result.
\<close>

type_synonym hook = "json \<Rightarrow> responseSpec option \<Rightarrow> scenarioContext \<Rightarrow> bool"

record config =
  timeout :: "int option"
  processor :: "(string \<rightharpoonup> hook) option"

definition strTruthy :: "string option \<Rightarrow> bool" where
  "strTruthy v = (case v of None \<Rightarrow> False | Some s \<Rightarrow> s \<noteq> [])"

definition isResponseRequired :: "requestSpec \<Rightarrow> bool" where
  "isResponseRequired spec =
     (case emit spec of
        None \<Rightarrow> False
      | Some em \<Rightarrow>
          (case emit_response em of
             NoResponse \<Rightarrow> False
           | OneResponse r \<Rightarrow> strTruthy (rs_channel r)
           | ManyResponses rs \<Rightarrow> rs \<noteq> []))"

definition isAcknowledgeRequired :: "requestSpec \<Rightarrow> bool" where
  "isAcknowledgeRequired spec =
     (case emit spec of None \<Rightarrow> False | Some em \<Rightarrow> emit_acknowledge em \<noteq> None)"

section \<open>Effects\<close>

text \<open>
  Everything a step does to the outside is appended to a chronological list: notifications on
  \<open>ee\<close>, calls of the transport (\<open>transmit\<close>, with a flag telling whether an acknowledgement
  callback was passed, and \<open>closeReceiver\<close>), the armed timer, calls of the
  \<open>beforeResponse\<close> hook with the message and the spec it is given, calls of the step's
  completion callback with its error argument, and a \<open>TypeError\<close> escaping a listener task.
\<close>

datatype effect =
    Emit notification
  | Transmit "string option" "json option" bool
  | CloseReceiver string
  | SetTimeout int
  | Invoke string json "responseSpec option"
  | Callback "err option"
  | Unhandled

definition markEndTime :: "scenarioContext \<Rightarrow> int \<Rightarrow> int \<Rightarrow> effect" where
  "markEndTime c startedAt now = Emit (Response (now - startedAt) 0 (uid c))"

section \<open>Grouping the required responses\<close>

text \<open>
  \<open>_.groupBy(requiredResponses, 'channel')\<close>: an object from the channel, as a property key,
  to the responses naming it, in declaration order. The order of the keys only decides the
  order in which the listeners are opened.
\<close>

definition channelKey :: "responseSpec \<Rightarrow> string" where
  "channelKey r = (case rs_channel r of None \<Rightarrow> ''undefined'' | Some c \<Rightarrow> c)"

fun addToGroup ::
  "string \<Rightarrow> responseSpec \<Rightarrow> (string \<times> responseSpec list) list \<Rightarrow> (string \<times> responseSpec list) list"
where
  "addToGroup c r [] = [(c, [r])]"
| "addToGroup c r (g # gs) =
     (if fst g = c then (fst g, snd g @ [r]) # gs else g # addToGroup c r gs)"

definition groupBy :: "responseSpec list \<Rightarrow> (string \<times> responseSpec list) list" where
  "groupBy rs = foldl (\<lambda>gs r. addToGroup (channelKey r) r gs) [] rs"

definition render :: "ext \<Rightarrow> scenarioContext \<Rightarrow> responseSpec \<Rightarrow> responseSpec" where
  "render x c r =
     \<lparr>rs_channel = templateStr x (rs_channel r) c,
      rs_data = template x (rs_data r) c,
      rs_capture = template x (rs_capture r) c,
      rs_match = template x (rs_match r) c\<rparr>"

section \<open>The response correlator\<close>

text \<open>
  The variables that the closures of one emit step share. \<open>correlation\<close> holds the ones fixed
  once the listeners are set up, \<open>stepState\<close> the ones that change: the global counter, the
  \<open>index\<close> of every channel's listener, the channels whose listener is still consuming, the
  context and the effects so far. JavaScript runs every listener body and the timer function
  to completion, one at a time, and \<open>captureOrMatch\<close> calls back before it returns, so a
  message or the timer is handled in one step of the model.
\<close>

record correlation =
  requiredResponsesCount :: int
  requiredResponsesCountsByChannel :: "(string \<times> int) list"
  responses :: "(string \<times> responseSpec list) list"
  startedAt :: int

text \<open>
  Modelled from the spec: the channel client is an external library, whose contract is
  \<open>receiver(channel)\<close>, a lazy sequence of the incoming messages of the channel, and
  \<open>closeReceiver(channel)\<close>, after which the listener of that channel consumes no further
  message. \<open>listening\<close> holds the channels whose listener task of this step is still
  consuming; a task that throws stops consuming as well.
\<close>

record stepState =
  currentResponsesCount :: int
  index :: "string \<Rightarrow> int"
  listening :: "string list"
  sctx :: scenarioContext
  effects :: "effect list"

definition at :: "'a list \<Rightarrow> int \<Rightarrow> 'a option" where
  "at xs i = (if 0 \<le> i \<and> i < int (length xs) then Some (xs ! nat i) else None)"

definition responsesOf :: "correlation \<Rightarrow> string \<Rightarrow> responseSpec list" where
  "responsesOf k c = (case map_of (responses k) c of None \<Rightarrow> [] | Some rs \<Rightarrow> rs)"

datatype hookOutcome = Crashed | Decided bool "effect list"

definition callHook ::
  "config \<Rightarrow> emitSpec \<Rightarrow> json \<Rightarrow> responseSpec option \<Rightarrow> scenarioContext \<Rightarrow> hookOutcome" where
  "callHook cfg em d r c =
     (case emit_beforeResponse em of
        None \<Rightarrow> Decided True []
      | Some name \<Rightarrow>
          if name = [] then Decided True []
          else
            (case processor cfg of
               None \<Rightarrow> Crashed
             | Some p \<Rightarrow>
                 (case p name of
                    None \<Rightarrow> Decided True []
                  | Some processFunc \<Rightarrow> Decided (processFunc d r c) [Invoke name d r])))"

text \<open>The body of the \<open>for await\<close> loop of the listener of \<open>channel\<close>, for one message
  \<open>d\<close> arriving when the clock reads \<open>now\<close>.\<close>

definition onMessage ::
  "ext \<Rightarrow> config \<Rightarrow> emitSpec \<Rightarrow> correlation \<Rightarrow> stepState \<Rightarrow> string \<Rightarrow> json \<Rightarrow> int \<Rightarrow> stepState" where
  "onMessage x cfg em k s channel d now =
     (if channel \<notin> set (listening s) then s
      else
        (case callHook cfg em d (at (responsesOf k channel) (index s channel)) (sctx s) of
           Crashed \<Rightarrow>
             s\<lparr>listening := removeAll channel (listening s), effects := effects s @ [Unhandled]\<rparr>
         | Decided beforeResponse hookEffects \<Rightarrow>
             if \<not> beforeResponse then s\<lparr>effects := effects s @ hookEffects\<rparr>
             else
               (let i = index s channel + 1;
                    n = currentResponsesCount s + 1
                in case at (responsesOf k channel) i of
                     None \<Rightarrow>
                       s\<lparr>currentResponsesCount := n,
                         index := (index s)(channel := i),
                         listening := removeAll channel (listening s),
                         effects := effects s @ hookEffects @ [Unhandled]\<rparr>
                   | Some r \<Rightarrow>
                       (case processResponse x d r (sctx s) of
                          (err, c', notes) \<Rightarrow>
                            (let channelDone =
                                   (map_of (requiredResponsesCountsByChannel k) channel = Some (i + 1)
                                    \<or> err \<noteq> None);
                                 stepDone = (requiredResponsesCount k = n \<or> err \<noteq> None)
                             in s\<lparr>currentResponsesCount := n,
                                  index := (index s)(channel := i),
                                  listening :=
                                    (if channelDone \<or> stepDone then removeAll channel (listening s)
                                     else listening s),
                                  sctx := c',
                                  effects := effects s @ hookEffects @ map Emit notes
                                    @ (if err = None then [markEndTime c' (startedAt k) now] else [])
                                    @ (if channelDone then [CloseReceiver channel] else [])
                                    @ (if stepDone then [CloseReceiver channel, Callback err]
                                       else [])\<rparr>)))))"

text \<open>The timer function \<open>responseTimeout\<close>.\<close>

definition responseTimeout :: "correlation \<Rightarrow> stepState \<Rightarrow> stepState" where
  "responseTimeout k s =
     (if requiredResponsesCount k \<noteq> currentResponsesCount s then
        s\<lparr>effects := effects s @ [Emit (Error (ErrString ''response timeout'')),
                                   Callback (Some (ErrString ''response timeout''))]\<rparr>
      else s)"

text \<open>What can happen while the step waits: a message arrives on a channel, or the timer
  fires. A run handles such events one after the other.\<close>

datatype event = Message string json int | Timeout

fun handle :: "ext \<Rightarrow> config \<Rightarrow> emitSpec \<Rightarrow> correlation \<Rightarrow> stepState \<Rightarrow> event \<Rightarrow> stepState" where
  "handle x cfg em k s (Message channel d now) = onMessage x cfg em k s channel d now"
| "handle x cfg em k s Timeout = responseTimeout k s"

definition run ::
  "ext \<Rightarrow> config \<Rightarrow> emitSpec \<Rightarrow> correlation \<Rightarrow> stepState \<Rightarrow> event list \<Rightarrow> stepState" where
  "run x cfg em k s evs = foldl (handle x cfg em k) s evs"

section \<open>The step function\<close>

definition waitTime :: "config \<Rightarrow> int" where
  "waitTime cfg = (case timeout cfg of None \<Rightarrow> 10 | Some t \<Rightarrow> if t = 0 then 10 else t) * 1000"

definition requiredResponses :: "emitSpec \<Rightarrow> responseSpec list" where
  "requiredResponses em =
     (case emit_response em of
        NoResponse \<Rightarrow> []
      | OneResponse r \<Rightarrow> [r]
      | ManyResponses rs \<Rightarrow> rs)"

definition correlate :: "ext \<Rightarrow> emitSpec \<Rightarrow> scenarioContext \<Rightarrow> int \<Rightarrow> correlation" where
  "correlate x em c t0 =
     (let channelsResponses = groupBy (requiredResponses em)
      in \<lparr>requiredResponsesCount = sum_list (map (\<lambda>g. int (length (snd g))) channelsResponses),
          requiredResponsesCountsByChannel =
            map (\<lambda>g. (fst g, int (length (snd g)))) channelsResponses,
          responses = map (\<lambda>g. (fst g, map (render x c) (snd g))) channelsResponses,
          startedAt = t0\<rparr>)"

definition namespaceKey :: "emitSpec \<Rightarrow> string" where
  "namespaceKey em = (case emit_namespace em of None \<Rightarrow> ''undefined'' | Some n \<Rightarrow> n)"

text \<open>
  The acknowledgement callback: the arguments of the remote acknowledgement are validated by
  \<open>processResponse\<close> against \<open>emit.acknowledge\<close>, whose plain-object fields get the default
  \<open>json\<close> path \<open>$.0\<close>.
\<close>

definition defaultJson :: "json option \<Rightarrow> json option" where
  "defaultJson v =
     (case v of
        Some (JObj kvs) \<Rightarrow>
          if ''json'' \<in> set (map fst kvs) then v else Some (JObj (kvs @ [(''json'', JStr ''$.0'')]))
      | _ \<Rightarrow> v)"

definition ackCallback ::
  "ext \<Rightarrow> responseSpec \<Rightarrow> scenarioContext \<Rightarrow> int \<Rightarrow> json \<Rightarrow> int \<Rightarrow> scenarioContext \<times> effect list" where
  "ackCallback x ack c t0 arguments now =
     (let response = \<lparr>rs_channel = None,
                       rs_data = defaultJson (template x (rs_data ack) c),
                       rs_capture = defaultJson (template x (rs_capture ack) c),
                       rs_match = defaultJson (template x (rs_match ack) c)\<rparr>
      in case processResponse x arguments response c of
           (err, c', notes) \<Rightarrow>
             (c', map Emit notes @ (if err = None then [markEndTime c' t0 now] else [])
                  @ [Callback err]))"

text \<open>
  What a call of \<open>f(context, callback)\<close> leaves behind: a think function that is returned
  and not called, a step handed to the HTTP engine, a finished call with its effects, a
  transmitted message whose acknowledgement callback is pending, or a correlator waiting for
  messages and for its timer.
\<close>

datatype stepOutcome =
    ThinkCreated
  | DelegatedToHttp
  | Finished scenarioContext "effect list"
  | AwaitingAck responseSpec "effect list"
  | AwaitingResponses correlation stepState

definition endCallback ::
  "ext \<Rightarrow> emitSpec \<Rightarrow> scenarioContext \<Rightarrow> int \<Rightarrow> int \<Rightarrow> string option \<Rightarrow> json option \<Rightarrow> bool
     \<Rightarrow> effect list \<Rightarrow> stepOutcome" where
  "endCallback x em c t0 now outChannel outData needemit sofar =
     (case emit_acknowledge em of
        Some ack \<Rightarrow>
          if needemit then AwaitingAck ack (sofar @ [Transmit outChannel outData True])
          else (case ackCallback x ack c t0 (JArr []) now of
                  (c', es) \<Rightarrow> Finished c' (sofar @ es))
      | None \<Rightarrow>
          Finished c (sofar @ (if needemit then [Transmit outChannel outData False] else [])
                        @ [markEndTime c t0 now, Callback None]))"

text \<open>
  \<open>f(context, callback)\<close>. \<open>t0\<close> is the reading of the clock taken for \<open>startedAt\<close>,
  \<open>now\<close> the reading when \<open>markEndTime\<close> runs in a call that finishes at once.
\<close>

definition f :: "ext \<Rightarrow> config \<Rightarrow> requestSpec \<Rightarrow> scenarioContext \<Rightarrow> int \<Rightarrow> int \<Rightarrow> stepOutcome" where
  "f x cfg spec c t0 now =
     (if truthy (think spec) then ThinkCreated
      else
        (case emit spec of
           None \<Rightarrow> DelegatedToHttp
         | Some em \<Rightarrow>
             if \<not> (strTruthy (emit_channel em) \<and> sockets c (namespaceKey em) \<noteq> None) then
               Finished c [Emit Request, Emit (Error (ErrString ''invalid arguments''))]
             else
               (let outChannel = templateStr x (emit_channel em) c;
                    outData = template x (emit_data em) c
                in if isResponseRequired spec then
                     (let k = correlate x em c t0
                      in AwaitingResponses k
                           \<lparr>currentResponsesCount = 0,
                            index = (\<lambda>channel. - 1),
                            listening = map fst (responses k),
                            sctx = c,
                            effects = [Emit Request, Transmit outChannel outData False,
                                       SetTimeout (waitTime cfg)]\<rparr>)
                   else endCallback x em c t0 now outChannel outData True [Emit Request])))"

section \<open>Obtaining the channel client\<close>

text \<open>
  \<open>loadContextSocket(namespace, context, cb)\<close>. With a stored client \<open>cb(null, socket)\<close>
  is called at once. Otherwise a client (the handle \<open>fresh\<close>) is created and stored, and
  two listener tasks are started on it: the one on \<open>error\<close> writes to the console, the one
  on \<open>connect\<close> calls \<open>cb(null, socket)\<close>. \<open>notified\<close> lists what the notifications of
  the client lead to, in order.
\<close>

datatype socketNotification = Connect | SocketError string

datatype connection = Existing nat | Created nat

datatype loadEffect = ConsoleError string | Cb "err option" nat

definition loadContextSocket ::
  "string \<Rightarrow> scenarioContext \<Rightarrow> nat \<Rightarrow> scenarioContext \<times> connection" where
  "loadContextSocket namespace c fresh =
     (case sockets c namespace of
        None \<Rightarrow> (c\<lparr>sockets := (sockets c)(namespace \<mapsto> fresh)\<rparr>, Created fresh)
      | Some socket \<Rightarrow> (c, Existing socket))"

fun onSocketNotification :: "nat \<Rightarrow> socketNotification \<Rightarrow> loadEffect" where
  "onSocketNotification socket (SocketError e) = ConsoleError e"
| "onSocketNotification socket Connect = Cb None socket"

fun notified :: "connection \<Rightarrow> socketNotification list \<Rightarrow> loadEffect list" where
  "notified (Existing socket) ns = [Cb None socket]"
| "notified (Created socket) ns = map (onSocketNotification socket) ns"

text \<open>
  \<open>preStep\<close>, the function \<open>step\<close> returns for a request with \<open>emit\<close>, stores the rendered
  namespace in the request and obtains the client; without \<open>emit\<close> the assignment would
  throw (\<open>None\<close>). The function it passes as \<open>cb\<close> is \<open>preStepCb\<close>, which reports an error
  (the payload of the notification is \<open>err.message\<close>) or runs \<open>f\<close>; a line on the console
  calls nothing.
\<close>

datatype preStepOutcome = Reported "string option" "err option" | Ran stepOutcome

definition errMessage :: "err \<Rightarrow> string option" where
  "errMessage e = (case e of ErrObject m \<Rightarrow> Some m | ErrString s \<Rightarrow> None)"

definition preStep ::
  "ext \<Rightarrow> requestSpec \<Rightarrow> scenarioContext \<Rightarrow> nat
     \<Rightarrow> (requestSpec \<times> scenarioContext \<times> connection) option" where
  "preStep x spec c fresh =
     (case emit spec of
        None \<Rightarrow> None
      | Some em \<Rightarrow>
          (let namespace = (case templateStr x (emit_namespace em) c of None \<Rightarrow> [] | Some n \<Rightarrow> n)
           in case loadContextSocket namespace c fresh of
                (c', conn) \<Rightarrow>
                  Some (spec\<lparr>emit := Some (em\<lparr>emit_namespace := Some namespace\<rparr>)\<rparr>, c', conn)))"

definition preStepCb ::
  "ext \<Rightarrow> config \<Rightarrow> requestSpec \<Rightarrow> scenarioContext \<Rightarrow> int \<Rightarrow> int \<Rightarrow> loadEffect
     \<Rightarrow> preStepOutcome option" where
  "preStepCb x cfg spec c t0 now le =
     (case le of
        ConsoleError e \<Rightarrow> None
      | Cb (Some e) socket \<Rightarrow> Some (Reported (errMessage e) (Some e))
      | Cb None socket \<Rightarrow> Some (Ran (f x cfg spec c t0 now)))"

section \<open>Observations on the effects of a step\<close>

fun callbackArg :: "effect \<Rightarrow> err option list" where
  "callbackArg (Callback r) = [r]"
| "callbackArg e = []"

definition callbacks :: "effect list \<Rightarrow> err option list" where
  "callbacks es = concat (map callbackArg es)"

text \<open>The outcome of a step is the first call of its completion callback.\<close>

definition completion :: "effect list \<Rightarrow> err option option" where
  "completion es = (case callbacks es of [] \<Rightarrow> None | r # rs \<Rightarrow> Some r)"

fun isResponse :: "effect \<Rightarrow> bool" where
  "isResponse (Emit (Response delta code u)) = True"
| "isResponse e = False"

definition latencies :: "effect list \<Rightarrow> effect list" where
  "latencies es = filter isResponse es"

fun isMessage :: "event \<Rightarrow> bool" where
  "isMessage (Message channel d now) = True"
| "isMessage Timeout = False"

definition failures :: "effect list \<Rightarrow> nat" where
  "failures es = length (filter (\<lambda>r. r \<noteq> None) (callbacks es))"

text \<open>The effects that a call of \<open>f\<close> has produced when it returns.\<close>

definition outcomeEffects :: "stepOutcome \<Rightarrow> effect list" where
  "outcomeEffects out =
     (case out of
        ThinkCreated \<Rightarrow> []
      | DelegatedToHttp \<Rightarrow> []
      | Finished c es \<Rightarrow> es
      | AwaitingAck ack es \<Rightarrow> es
      | AwaitingResponses k s \<Rightarrow> effects s)"

section \<open>Statements of the specification used for comparison\<close>

text \<open>
  The timeout as the specification words it: the step-level override when present, otherwise
  the scenario timeout, otherwise 10, in seconds, converted to milliseconds.
\<close>

definition spec_waitTime :: "config \<Rightarrow> emitSpec \<Rightarrow> int" where
  "spec_waitTime cfg em =
     (case emit_timeout em of
        Some t \<Rightarrow> t
      | None \<Rightarrow> (case timeout cfg of None \<Rightarrow> 10 | Some t \<Rightarrow> t)) * 1000"







section \<open>Invariants of the correlator\<close>

text \<open>
  \<open>wellFormed\<close> holds of the closure constants that \<open>f\<close> sets up, \<open>consistent\<close> of every
  state a run reaches: the index of a channel stays below its number of responses, a channel
  whose listener is still consuming has a response left, and the global counter is the sum of
  the consumed messages of all channels. \<open>accounted\<close> relates the counter to the effects
  while only messages have been handled.
\<close>

definition channels :: "correlation \<Rightarrow> string list" where
  "channels k = map fst (responses k)"

definition needed :: "correlation \<Rightarrow> string \<Rightarrow> int" where
  "needed k c = int (length (responsesOf k c))"

definition wellFormed :: "correlation \<Rightarrow> bool" where
  "wellFormed k \<longleftrightarrow>
     distinct (map fst (responses k))
     \<and> (\<forall>g \<in> set (responses k). snd g \<noteq> [])
     \<and> requiredResponsesCountsByChannel k = map (\<lambda>g. (fst g, int (length (snd g)))) (responses k)
     \<and> requiredResponsesCount k = sum_list (map (\<lambda>g. int (length (snd g))) (responses k))"

definition consistent :: "correlation \<Rightarrow> stepState \<Rightarrow> bool" where
  "consistent k s \<longleftrightarrow>
     (\<forall>c. - 1 \<le> index s c \<and> index s c < needed k c)
     \<and> (\<forall>c \<in> set (listening s). index s c + 1 < needed k c)
     \<and> currentResponsesCount s = sum_list (map (\<lambda>c. index s c + 1) (channels k))"

definition accounted :: "correlation \<Rightarrow> stepState \<Rightarrow> bool" where
  "accounted k s \<longleftrightarrow>
     int (length (latencies (effects s))) + int (failures (effects s)) = currentResponsesCount s
     \<and> (failures (effects s) = 0 \<longrightarrow>
          callbacks (effects s)
            = (if currentResponsesCount s = requiredResponsesCount k then [None] else []))
     \<and> (0 < failures (effects s) \<longrightarrow> (\<exists>e rs. callbacks (effects s) = Some e # rs))"

text \<open>Concrete collaborators and values used to evaluate the model.\<close>

definition ext0 :: ext where
  "ext0 = \<lparr>deepEqual = (\<lambda>a b. a = b),
           stringify = (\<lambda>d. ''body''),
           template = (\<lambda>v c. v),
           templateStr = (\<lambda>v c. v),
           captureOrMatch = (\<lambda>r b c. Inr \<lparr>matches = [], captures = [(''id'', JNum 7)]\<rparr>)\<rparr>"

definition ctx0 :: scenarioContext where
  "ctx0 = \<lparr>vars = Map.empty, sockets = [[] \<mapsto> 1], successCount = 0, uid = ''u1''\<rparr>"

definition anySpec :: "string \<Rightarrow> responseSpec" where
  "anySpec c = \<lparr>rs_channel = Some c, rs_data = None, rs_capture = None, rs_match = None\<rparr>"

definition dataSpec :: "string \<Rightarrow> json \<Rightarrow> responseSpec" where
  "dataSpec c e = \<lparr>rs_channel = Some c, rs_data = Some e, rs_capture = None, rs_match = None\<rparr>"

definition captureSpec :: "string \<Rightarrow> responseSpec" where
  "captureSpec c = \<lparr>rs_channel = Some c, rs_data = None,
                    rs_capture = Some (JObj [(''json'', JStr ''$.id''), (''as'', JStr ''id'')]),
                    rs_match = None\<rparr>"



definition cfg0 :: config where
  "cfg0 = \<lparr>timeout = None, processor = None\<rparr>"

definition emitTo :: "responseReq \<Rightarrow> emitSpec" where
  "emitTo rq = \<lparr>emit_namespace = Some [], emit_channel = Some ''out'', emit_data = None,
                emit_response = rq, emit_acknowledge = None, emit_beforeResponse = None,
                emit_timeout = None\<rparr>"

definition em2 :: emitSpec where
  "em2 = emitTo (ManyResponses [dataSpec ''a'' (JNum 1), anySpec ''b''])"

definition spec2 :: requestSpec where
  "spec2 = \<lparr>think = None, emit = Some em2\<rparr>"

definition k2 :: correlation where
  "k2 = correlate ext0 em2 ctx0 0"

definition s2 :: stepState where
  "s2 = \<lparr>currentResponsesCount = 0, index = (\<lambda>channel. - 1), listening = [''a'', ''b''],
         sctx = ctx0,
         effects = [Emit Request, Transmit (Some ''out'') None False, SetTimeout 10000]\<rparr>"

definition cfgAccept :: config where
  "cfgAccept = \<lparr>timeout = None, processor = Some [''h'' \<mapsto> (\<lambda>d r c. True)]\<rparr>"

definition cfgReject :: config where
  "cfgReject = \<lparr>timeout = None, processor = Some [''h'' \<mapsto> (\<lambda>d r c. False)]\<rparr>"

definition emHook :: emitSpec where
  "emHook = em2\<lparr>emit_beforeResponse := Some ''h''\<rparr>"

definition cfg20 :: config where
  "cfg20 = \<lparr>timeout = Some 20, processor = None\<rparr>"

definition em5 :: emitSpec where
  "em5 = em2\<lparr>emit_timeout := Some 5\<rparr>"

definition emChat :: emitSpec where
  "emChat = em2\<lparr>emit_namespace := Some ''/chat''\<rparr>"

section \<open>Grouping, invariants and refinement lemmas\<close>

lemma addToGroup_keys:
  "map fst (addToGroup c r gs) = (if c \<in> set (map fst gs) then map fst gs else map fst gs @ [c])"
  by (induction gs) auto


lemma addToGroup_nonempty:
  "\<forall>g \<in> set gs. snd g \<noteq> [] \<Longrightarrow> \<forall>g \<in> set (addToGroup c r gs). snd g \<noteq> []"
  by (induction gs) auto

lemma groupBy_snoc: "groupBy (rs @ [r]) = addToGroup (channelKey r) r (groupBy rs)"
  by (simp add: groupBy_def)

lemma groupBy_distinct: "distinct (map fst (groupBy rs))"
  by (induction rs rule: rev_induct) (auto simp: groupBy_snoc addToGroup_keys, simp add: groupBy_def)

lemma groupBy_nonempty: "\<forall>g \<in> set (groupBy rs). snd g \<noteq> []"
proof (induction rs rule: rev_induct)
  case Nil
  then show ?case by (simp add: groupBy_def)
next
  case (snoc r rs)
  then show ?case unfolding groupBy_snoc by (rule addToGroup_nonempty)
qed


lemma addToGroup_total:
  "sum_list (map (\<lambda>g. int (length (snd g))) (addToGroup c r gs))
     = sum_list (map (\<lambda>g. int (length (snd g))) gs) + 1"
  by (induction gs) auto

lemma groupBy_total:
  "sum_list (map (\<lambda>g. int (length (snd g))) (groupBy rs)) = int (length rs)"
  by (induction rs rule: rev_induct) (simp_all add: groupBy_snoc addToGroup_total, simp add: groupBy_def)





lemma correlate_wellFormed: "wellFormed (correlate x em c t0)"
  using groupBy_distinct [of "requiredResponses em"] groupBy_nonempty [of "requiredResponses em"]
  by (auto simp: wellFormed_def correlate_def Let_def comp_def)

lemma needed_outside: "c \<notin> set (channels k) \<Longrightarrow> needed k c = 0"
  by (simp add: channels_def needed_def responsesOf_def map_of_eq_None_iff [THEN iffD2])

lemma needed_inside:
  "wellFormed k \<Longrightarrow> g \<in> set (responses k) \<Longrightarrow> needed k (fst g) = int (length (snd g))"
  by (cases g) (simp add: needed_def responsesOf_def wellFormed_def)

lemma needed_positive:
  "wellFormed k \<Longrightarrow> c \<in> set (channels k) \<Longrightarrow> 0 < needed k c"
  using needed_inside by (fastforce simp: wellFormed_def channels_def)

lemma counts_lookup:
  "wellFormed k \<Longrightarrow> c \<in> set (channels k) \<Longrightarrow>
     map_of (requiredResponsesCountsByChannel k) c = Some (needed k c)"
proof -
  assume wf: "wellFormed k" and c: "c \<in> set (channels k)"
  then obtain g where g: "g \<in> set (responses k)" "fst g = c" by (auto simp: channels_def)
  have d: "distinct (map fst (requiredResponsesCountsByChannel k))"
    using wf by (simp add: wellFormed_def comp_def)
  have "(c, needed k c) \<in> set (requiredResponsesCountsByChannel k)"
    using wf g needed_inside [OF wf g(1)] by (auto simp: wellFormed_def intro!: image_eqI [of _ _ g])
  with d show ?thesis by simp
qed

lemma required_sum:
  "wellFormed k \<Longrightarrow>
     requiredResponsesCount k = sum_list (map (needed k) (channels k))"
proof -
  assume wf: "wellFormed k"
  have "map (\<lambda>g. int (length (snd g))) (responses k) = map (needed k) (channels k)"
    using needed_inside [OF wf] by (simp add: channels_def)
  with wf show ?thesis by (simp add: wellFormed_def)
qed

lemma channels_distinct: "wellFormed k \<Longrightarrow> distinct (channels k)"
  by (simp add: wellFormed_def channels_def)

lemma sum_list_le:
  "(\<And>c. c \<in> set cs \<Longrightarrow> h c \<le> (g c :: int)) \<Longrightarrow> sum_list (map h cs) \<le> sum_list (map g cs)"
  by (induction cs) (auto intro: add_mono)

lemma sum_list_less:
  "(\<And>c. c \<in> set cs \<Longrightarrow> h c \<le> (g c :: int)) \<Longrightarrow> c \<in> set cs \<Longrightarrow> h c < g c \<Longrightarrow>
     sum_list (map h cs) < sum_list (map g cs)"
proof (induction cs)
  case Nil
  then show ?case by simp
next
  case (Cons a cs)
  show ?case
  proof (cases "a = c")
    case True
    have "sum_list (map h cs) \<le> sum_list (map g cs)" using Cons.prems(1) by (intro sum_list_le) simp
    with True Cons.prems(3) show ?thesis by simp
  next
    case False
    with Cons.prems have "c \<in> set cs" by simp
    with Cons have "sum_list (map h cs) < sum_list (map g cs)" by simp
    moreover have "h a \<le> g a" using Cons.prems(1) by simp
    ultimately show ?thesis by simp
  qed
qed


lemma consistent_listening_less:
  assumes wf: "wellFormed k" and con: "consistent k s" and c: "c \<in> set (listening s)"
  shows "currentResponsesCount s < requiredResponsesCount k \<and> c \<in> set (channels k)"
proof -
  have lt: "index s c + 1 < needed k c" using con c by (simp add: consistent_def)
  have low: "- 1 \<le> index s c" using con by (simp add: consistent_def)
  have inside: "c \<in> set (channels k)"
  proof (rule ccontr)
    assume "c \<notin> set (channels k)"
    then have "needed k c = 0" by (rule needed_outside)
    with lt low show False by simp
  qed
  have "sum_list (map (\<lambda>c. index s c + 1) (channels k)) < sum_list (map (needed k) (channels k))"
  proof (rule sum_list_less [where c = c])
    fix c'
    have "index s c' < needed k c'" using con by (simp add: consistent_def)
    then show "index s c' + 1 \<le> needed k c'" by simp
  qed (use inside lt in auto)
  then show ?thesis using wf con inside by (simp add: required_sum consistent_def)
qed

lemma consistent_complete:
  assumes wf: "wellFormed k" and con: "consistent k s"
    and full: "currentResponsesCount s = requiredResponsesCount k"
  shows "listening s = []"
proof (rule ccontr)
  assume "listening s \<noteq> []"
  then obtain c where "c \<in> set (listening s)" by (cases "listening s") auto
  from consistent_listening_less [OF wf con this] full show False by simp
qed

lemma callHook_effects:
  "callHook cfg em d r c = Decided b hs \<Longrightarrow> hs = [] \<or> (\<exists>name. hs = [Invoke name d r])"
  by (auto simp: callHook_def split: option.splits if_splits)

lemma callbacks_append [simp]: "callbacks (es @ fs) = callbacks es @ callbacks fs"
  by (simp add: callbacks_def)

lemma latencies_append [simp]: "latencies (es @ fs) = latencies es @ latencies fs"
  by (simp add: latencies_def)

lemma callbacks_hook:
  "callHook cfg em d r c = Decided b hs \<Longrightarrow> callbacks hs = [] \<and> latencies hs = []"
  by (drule callHook_effects) (auto simp: callbacks_def latencies_def)

lemma callbacks_notes [simp]: "callbacks (map Emit ns) = []"
  by (induction ns) (auto simp: callbacks_def)

lemma processResponse_notes:
  "processResponse x d r c = (err, c', ns) \<Longrightarrow> latencies (map Emit ns) = []"
  by (auto simp: processResponse_def Let_def latencies_def matchEvents_def comp_def
           split: if_splits sum.splits)

lemma at_Some: "0 \<le> i \<Longrightarrow> i < int (length xs) \<Longrightarrow> at xs i = Some (xs ! nat i)"
  by (simp add: at_def)

lemma onMessage_cases:
  assumes wf: "wellFormed k" and con: "consistent k s"
  obtains
    (idle) "channel \<notin> set (listening s)" "onMessage x cfg em k s channel d now = s"
  | (crashed) "channel \<in> set (listening s)"
      "callHook cfg em d (at (responsesOf k channel) (index s channel)) (sctx s) = Crashed"
      "onMessage x cfg em k s channel d now =
         s\<lparr>listening := removeAll channel (listening s), effects := effects s @ [Unhandled]\<rparr>"
  | (rejected) hs where "channel \<in> set (listening s)"
      "callHook cfg em d (at (responsesOf k channel) (index s channel)) (sctx s) = Decided False hs"
      "onMessage x cfg em k s channel d now = s\<lparr>effects := effects s @ hs\<rparr>"
  | (consumed) hs r err c' ns where "channel \<in> set (listening s)"
      "callHook cfg em d (at (responsesOf k channel) (index s channel)) (sctx s) = Decided True hs"
      "at (responsesOf k channel) (index s channel + 1) = Some r"
      "processResponse x d r (sctx s) = (err, c', ns)"
      "onMessage x cfg em k s channel d now =
         s\<lparr>currentResponsesCount := currentResponsesCount s + 1,
           index := (index s)(channel := index s channel + 1),
           listening :=
             (if needed k channel = index s channel + 2
                 \<or> requiredResponsesCount k = currentResponsesCount s + 1 \<or> err \<noteq> None
              then removeAll channel (listening s) else listening s),
           sctx := c',
           effects := effects s @ hs @ map Emit ns
             @ (if err = None then [markEndTime c' (startedAt k) now] else [])
             @ (if needed k channel = index s channel + 2 \<or> err \<noteq> None
                then [CloseReceiver channel] else [])
             @ (if requiredResponsesCount k = currentResponsesCount s + 1 \<or> err \<noteq> None
                then [CloseReceiver channel, Callback err] else [])\<rparr>"
proof (cases "channel \<in> set (listening s)")
  case False
  then show ?thesis by (intro idle) (simp_all add: onMessage_def)
next
  case True
  from consistent_listening_less [OF wf con True]
  have inside: "channel \<in> set (channels k)" by simp
  have cnt: "map_of (requiredResponsesCountsByChannel k) channel = Some (needed k channel)"
    using wf inside by (rule counts_lookup)
  have "- 1 \<le> index s channel" using con by (simp add: consistent_def)
  then have rng0: "0 \<le> index s channel + 1" by simp
  have rng1: "index s channel + 1 < int (length (responsesOf k channel))"
    using con True by (simp add: consistent_def needed_def)
  note rng = rng0 rng1
  then have at1: "at (responsesOf k channel) (index s channel + 1)
                    = Some (responsesOf k channel ! nat (index s channel + 1))"
    by (rule at_Some)
  show ?thesis
  proof (cases "callHook cfg em d (at (responsesOf k channel) (index s channel)) (sctx s)")
    case Crashed
    with True show ?thesis by (intro crashed) (simp_all add: onMessage_def)
  next
    case (Decided b hs)
    show ?thesis
    proof (cases b)
      case False
      with True Decided show ?thesis by (intro rejected [of hs]) (simp_all add: onMessage_def)
    next
      case b: True
      obtain err c' ns where pr:
        "processResponse x d (responsesOf k channel ! nat (index s channel + 1)) (sctx s)
           = (err, c', ns)"
        by (cases "processResponse x d (responsesOf k channel ! nat (index s channel + 1)) (sctx s)")
      have eq: "(needed k channel = index s channel + 1 + 1) = (needed k channel = index s channel + 2)"
        by auto
      show ?thesis
        using True Decided b at1 pr
        by (intro consumed [of hs _ err c' ns])
           (simp_all add: onMessage_def Let_def cnt eq)
    qed
  qed
qed


lemma failures_append [simp]: "failures (es @ fs) = failures es + failures fs"
  by (simp add: failures_def)

lemma failures_hook:
  "callHook cfg em d r c = Decided b hs \<Longrightarrow> failures hs = 0"
  by (drule callbacks_hook) (simp add: failures_def)

lemma failures_notes [simp]: "failures (map Emit ns) = 0"
  by (simp add: failures_def)

lemma latencies_simps [simp]:
  "latencies [] = []"
  "latencies (markEndTime c t0 now # es) = markEndTime c t0 now # latencies es"
  "latencies (CloseReceiver ch # es) = latencies es"
  "latencies (Callback r # es) = latencies es"
  "latencies (Unhandled # es) = latencies es"
  "latencies (Emit (Error e) # es) = latencies es"
  by (simp_all add: latencies_def markEndTime_def)

lemma callbacks_simps [simp]:
  "callbacks [] = []"
  "callbacks (markEndTime c t0 now # es) = callbacks es"
  "callbacks (CloseReceiver ch # es) = callbacks es"
  "callbacks (Callback r # es) = r # callbacks es"
  "callbacks (Unhandled # es) = callbacks es"
  "callbacks (Emit n # es) = callbacks es"
  by (simp_all add: callbacks_def markEndTime_def)

lemma failures_simps [simp]:
  "failures [] = 0"
  "failures (markEndTime c t0 now # es) = failures es"
  "failures (CloseReceiver ch # es) = failures es"
  "failures (Callback r # es) = (if r = None then 0 else 1) + failures es"
  "failures (Unhandled # es) = failures es"
  "failures (Emit n # es) = failures es"
  by (simp_all add: failures_def)

lemma sum_list_untouched:
  "c \<notin> set cs \<Longrightarrow>
     sum_list (map (\<lambda>a. (h(c := v)) a + 1) cs) = sum_list (map (\<lambda>a. h a + (1::int)) cs)"
  by (induction cs) auto

lemma sum_list_bump:
  "distinct cs \<Longrightarrow> c \<in> set cs \<Longrightarrow>
     sum_list (map (\<lambda>a. (h(c := h c + 1)) a + 1) cs) = sum_list (map (\<lambda>a. h a + 1) cs) + (1::int)"
proof (induction cs)
  case Nil
  then show ?case by simp
next
  case (Cons a cs)
  show ?case
  proof (cases "a = c")
    case True
    with Cons.prems have "c \<notin> set cs" by simp
    from sum_list_untouched [OF this, of h "h c + 1"] True show ?thesis by simp
  next
    case False
    with Cons show ?thesis by simp
  qed
qed

lemma onMessage_consistent:
  assumes wf: "wellFormed k" and con: "consistent k s"
  shows "consistent k (onMessage x cfg em k s channel d now)"
  using wf con
proof (cases rule: onMessage_cases [where channel = channel and x = x and cfg = cfg and em = em
         and d = d and now = now])
  case idle
  with con show ?thesis by simp
next
  case crashed
  with con show ?thesis by (auto simp: consistent_def)
next
  case (rejected hs)
  with con show ?thesis by (simp add: consistent_def)
next
  case (consumed hs r err c' ns)
  from consistent_listening_less [OF wf con consumed(1)]
  have inside: "channel \<in> set (channels k)" by simp
  have lt: "index s channel + 1 < needed k channel" using con consumed(1) by (simp add: consistent_def)
  have low: "- 1 \<le> index s channel" using con by (simp add: consistent_def)
  have sum: "sum_list (map (\<lambda>c. ((index s)(channel := index s channel + 1)) c + 1) (channels k))
               = sum_list (map (\<lambda>c. index s c + 1) (channels k)) + 1"
    using channels_distinct [OF wf] inside by (rule sum_list_bump)
  have a: "\<forall>c. - 1 \<le> ((index s)(channel := index s channel + 1)) c
               \<and> ((index s)(channel := index s channel + 1)) c < needed k c"
  proof
    fix c
    have "- 1 \<le> index s c \<and> index s c < needed k c" using con by (simp add: consistent_def)
    with lt low show "- 1 \<le> ((index s)(channel := index s channel + 1)) c
               \<and> ((index s)(channel := index s channel + 1)) c < needed k c"
      by (cases "c = channel") simp_all
  qed
  have b: "\<forall>c \<in> set (if needed k channel = index s channel + 2
                 \<or> requiredResponsesCount k = currentResponsesCount s + 1 \<or> err \<noteq> None
              then removeAll channel (listening s) else listening s).
             ((index s)(channel := index s channel + 1)) c + 1 < needed k c"
    using con lt by (auto simp: consistent_def)
  have c: "currentResponsesCount s + 1
             = sum_list (map (\<lambda>c. ((index s)(channel := index s channel + 1)) c + 1) (channels k))"
    using con sum by (simp add: consistent_def)
  show ?thesis unfolding consumed(5) consistent_def using a b c by simp
qed

lemma responseTimeout_consistent: "consistent k s \<Longrightarrow> consistent k (responseTimeout k s)"
  by (simp add: consistent_def responseTimeout_def)

lemma handle_consistent:
  "wellFormed k \<Longrightarrow> consistent k s \<Longrightarrow> consistent k (handle x cfg em k s e)"
  by (cases e) (simp_all add: onMessage_consistent responseTimeout_consistent)

lemma run_snoc: "run x cfg em k s (evs @ [e]) = handle x cfg em k (run x cfg em k s evs) e"
  by (simp add: run_def)

lemma run_append: "run x cfg em k s (evs @ evs') = run x cfg em k (run x cfg em k s evs) evs'"
  by (simp add: run_def)

lemma run_consistent:
  "wellFormed k \<Longrightarrow> consistent k s \<Longrightarrow> consistent k (run x cfg em k s evs)"
  by (induction evs rule: rev_induct) (simp_all add: run_snoc handle_consistent, simp add: run_def)

lemma onMessage_accounted:
  assumes wf: "wellFormed k" and con: "consistent k s" and acc: "accounted k s"
  shows "accounted k (onMessage x cfg em k s channel d now)"
  using wf con
proof (cases rule: onMessage_cases [where channel = channel and x = x and cfg = cfg and em = em
         and d = d and now = now])
  case idle
  with acc show ?thesis by simp
next
  case crashed
  with acc show ?thesis by (simp add: accounted_def)
next
  case (rejected hs)
  with acc callbacks_hook [OF rejected(2)] failures_hook [OF rejected(2)]
  show ?thesis by (simp add: accounted_def)
next
  case (consumed hs r err c' ns)
  from consistent_listening_less [OF wf con consumed(1)]
  have less: "currentResponsesCount s < requiredResponsesCount k" by simp
  note hk = callbacks_hook [OF consumed(2)] failures_hook [OF consumed(2)]
  note pr = processResponse_notes [OF consumed(4)]
  show ?thesis
  proof (cases err)
    case None
    with acc less hk pr show ?thesis
      unfolding consumed(5) accounted_def by (auto simp: )
  next
    case (Some e)
    with acc less hk pr show ?thesis
      unfolding consumed(5) accounted_def by (auto simp: )
  qed
qed




lemma endCallback_not_awaiting:
  "endCallback x em c t0 now oc od ne sofar \<noteq> AwaitingResponses k s"
  by (simp add: endCallback_def split: option.splits prod.splits)

lemma f_awaiting:
  assumes "f x cfg spec c t0 now = AwaitingResponses k s"
  obtains em where "emit spec = Some em" "isResponseRequired spec"
    "k = correlate x em c t0"
    "s = \<lparr>currentResponsesCount = 0, index = (\<lambda>channel. - 1), listening = channels k, sctx = c,
          effects = [Emit Request,
                     Transmit (templateStr x (emit_channel em) c) (template x (emit_data em) c) False,
                     SetTimeout (waitTime cfg)]\<rparr>"
  using assms
  by (auto simp: f_def Let_def channels_def endCallback_not_awaiting split: if_splits option.splits)

lemma correlate_total:
  "requiredResponsesCount (correlate x em c t0) = int (length (requiredResponses em))"
  by (simp add: correlate_def Let_def groupBy_total)


lemma required_nonempty:
  "emit spec = Some em \<Longrightarrow> isResponseRequired spec \<Longrightarrow> requiredResponses em \<noteq> []"
  by (auto simp: isResponseRequired_def requiredResponses_def split: responseReq.splits)


lemma initial_state:
  assumes "f x cfg spec c t0 now = AwaitingResponses k s"
  shows "wellFormed k \<and> consistent k s \<and> accounted k s"
proof -
  from assms obtain em where em: "emit spec = Some em" "isResponseRequired spec"
    "k = correlate x em c t0"
    "s = \<lparr>currentResponsesCount = 0, index = (\<lambda>channel. - 1), listening = channels k, sctx = c,
          effects = [Emit Request,
                     Transmit (templateStr x (emit_channel em) c) (template x (emit_data em) c) False,
                     SetTimeout (waitTime cfg)]\<rparr>"
    by (rule f_awaiting)
  have wf: "wellFormed k" using em(3) by (simp add: correlate_wellFormed)
  have pos: "0 < requiredResponsesCount k"
    using required_nonempty [OF em(1,2)] em(3) by (simp add: correlate_total)
  have con: "consistent k s"
    using needed_positive [OF wf] by (auto simp: consistent_def em(4) needed_def)
  have acc: "accounted k s"
    using pos by (simp add: accounted_def em(4) latencies_def callbacks_def failures_def)
  from wf con acc show ?thesis by simp
qed

lemma run_accounted:
  assumes wf: "wellFormed k" and con: "consistent k s" and acc: "accounted k s"
    and msgs: "\<forall>e \<in> set evs. isMessage e"
  shows "accounted k (run x cfg em k s evs)"
  using msgs
proof (induction evs rule: rev_induct)
  case Nil
  with acc show ?case by (simp add: run_def)
next
  case (snoc e evs)
  then obtain channel d now where e: "e = Message channel d now" by (cases e) auto
  have "consistent k (run x cfg em k s evs)" using wf con by (rule run_consistent)
  moreover have "accounted k (run x cfg em k s evs)" using snoc by simp
  ultimately show ?case using wf e by (simp add: run_snoc onMessage_accounted)
qed

lemma settled_fixpoint:
  assumes wf: "wellFormed k" and con: "consistent k s"
    and full: "currentResponsesCount s = requiredResponsesCount k"
  shows "run x cfg em k s evs = s"
proof -
  have idle: "listening s = []" using wf con full by (rule consistent_complete)
  have "handle x cfg em k s e = s" for e
    by (cases e) (simp_all add: onMessage_def responseTimeout_def idle full)
  then show ?thesis by (induction evs) (simp_all add: run_def)
qed


lemma fill_calls_once:
  assumes wf: "wellFormed k" and con: "consistent k s"
    and before: "currentResponsesCount s \<noteq> requiredResponsesCount k"
    and after: "currentResponsesCount (onMessage x cfg em k s channel d now) = requiredResponsesCount k"
  shows "\<exists>r. callbacks (effects (onMessage x cfg em k s channel d now)) = callbacks (effects s) @ [r]"
  using wf con
proof (cases rule: onMessage_cases [where channel = channel and x = x and cfg = cfg and em = em
         and d = d and now = now])
  case idle
  with before after show ?thesis by simp
next
  case crashed
  with before after show ?thesis by simp
next
  case (rejected hs)
  with before after show ?thesis by simp
next
  case (consumed hs r err c' ns)
  from after have "requiredResponsesCount k = currentResponsesCount s + 1"
    unfolding consumed(5) by simp
  with callbacks_hook [OF consumed(2)] show ?thesis
    unfolding consumed(5) by simp
qed

lemma unfilled_step_calls:
  assumes wf: "wellFormed k" and con: "consistent k s"
    and after: "currentResponsesCount (onMessage x cfg em k s channel d now) \<noteq> requiredResponsesCount k"
  shows "\<exists>extra. callbacks (effects (onMessage x cfg em k s channel d now))
                    = callbacks (effects s) @ extra
               \<and> None \<notin> set extra
               \<and> failures (effects (onMessage x cfg em k s channel d now))
                    = failures (effects s) + length extra"
  using wf con
proof (cases rule: onMessage_cases [where channel = channel and x = x and cfg = cfg and em = em
         and d = d and now = now])
  case idle
  then show ?thesis by simp
next
  case crashed
  then show ?thesis by simp
next
  case (rejected hs)
  with callbacks_hook [OF rejected(2)] failures_hook [OF rejected(2)] show ?thesis by simp
next
  case (consumed hs r err c' ns)
  from after have ne: "requiredResponsesCount k \<noteq> currentResponsesCount s + 1"
    unfolding consumed(5) by simp
  note hk = callbacks_hook [OF consumed(2)] failures_hook [OF consumed(2)]
  show ?thesis
  proof (cases err)
    case None
    with ne hk show ?thesis unfolding consumed(5) by simp
  next
    case (Some e)
    with ne hk show ?thesis unfolding consumed(5) by simp
  qed
qed

lemma unfilled_run_calls:
  assumes wf: "wellFormed k" and con: "consistent k s"
    and msgs: "\<forall>e \<in> set evs. isMessage e"
    and after: "currentResponsesCount (run x cfg em k s evs) \<noteq> requiredResponsesCount k"
  shows "\<exists>extra. callbacks (effects (run x cfg em k s evs)) = callbacks (effects s) @ extra
               \<and> None \<notin> set extra
               \<and> failures (effects (run x cfg em k s evs)) = failures (effects s) + length extra"
  using msgs after
proof (induction evs rule: rev_induct)
  case Nil
  then show ?case by (simp add: run_def)
next
  case (snoc e evs)
  let ?s = "run x cfg em k s evs"
  from snoc.prems obtain channel d now where e: "e = Message channel d now" by (cases e) auto
  have con': "consistent k ?s" using wf con by (rule run_consistent)
  have open_: "currentResponsesCount ?s \<noteq> requiredResponsesCount k"
  proof
    assume "currentResponsesCount ?s = requiredResponsesCount k"
    from settled_fixpoint [OF wf con' this, of x cfg em "[e]"] this snoc.prems(2)
    show False by (simp add: run_append)
  qed
  with snoc obtain extra where ex: "callbacks (effects ?s) = callbacks (effects s) @ extra"
    "None \<notin> set extra" "failures (effects ?s) = failures (effects s) + length extra" by auto
  from snoc.prems(2) have "currentResponsesCount (onMessage x cfg em k ?s channel d now)
                             \<noteq> requiredResponsesCount k"
    by (simp add: run_snoc e)
  from unfilled_step_calls [OF wf con' this] obtain extra' where
    ex': "callbacks (effects (onMessage x cfg em k ?s channel d now)) = callbacks (effects ?s) @ extra'"
    "None \<notin> set extra'"
    "failures (effects (onMessage x cfg em k ?s channel d now)) = failures (effects ?s) + length extra'"
    by auto
  have "callbacks (effects (run x cfg em k s (evs @ [e]))) = callbacks (effects s) @ (extra @ extra')
        \<and> None \<notin> set (extra @ extra')
        \<and> failures (effects (run x cfg em k s (evs @ [e])))
             = failures (effects s) + length (extra @ extra')"
    using ex ex' by (simp add: run_snoc e)
  then show ?case by blast
qed


section \<open>Evaluation on concrete steps\<close>

lemma k2_value:
  "k2 = \<lparr>requiredResponsesCount = 2,
         requiredResponsesCountsByChannel = [(''a'', 1), (''b'', 1)],
         responses = [(''a'', [dataSpec ''a'' (JNum 1)]), (''b'', [anySpec ''b''])],
         startedAt = 0\<rparr>"
  by (simp add: k2_def correlate_def em2_def emitTo_def requiredResponses_def groupBy_def
        channelKey_def dataSpec_def anySpec_def render_def ext0_def Let_def)

lemma f_spec2: "f ext0 cfg0 spec2 ctx0 0 0 = AwaitingResponses k2 s2"
  unfolding k2_value
  by (simp add: f_def spec2_def em2_def emitTo_def strTruthy_def namespaceKey_def ctx0_def
        isResponseRequired_def Let_def s2_def waitTime_def cfg0_def
        correlate_def requiredResponses_def groupBy_def
        channelKey_def dataSpec_def anySpec_def render_def ext0_def)

lemmas eval_simps = run_def onMessage_def responseTimeout_def callHook_def at_def responsesOf_def
  processResponse_def dataInvalid_def markEndTime_def Let_def k2_value s2_def em2_def emitTo_def
  dataSpec_def anySpec_def ext0_def ctx0_def cfg0_def callbacks_def latencies_def failures_def
  completion_def

lemma run_fail_then_timeout:
  "callbacks (effects (run ext0 cfg0 em2 k2 s2 [Message ''a'' (JNum 2) 5, Timeout]))
     = [Some (ErrString ''data is not valid''), Some (ErrString ''response timeout'')]"
  by (simp add: eval_simps)

lemma run_fail_then_other:
  "effects (run ext0 cfg0 em2 k2 s2 [Message ''a'' (JNum 2) 5, Message ''b'' (JNum 3) 7])
     = [Emit Request, Transmit (Some ''out'') None False, SetTimeout 10000,
        Emit (Error (ErrString ''data is not valid'')), CloseReceiver ''a'', CloseReceiver ''a'',
        Callback (Some (ErrString ''data is not valid'')),
        Emit (Response 7 0 ''u1''), CloseReceiver ''b'', CloseReceiver ''b'', Callback None]"
  by (simp add: eval_simps)

lemma run_ok:
  "effects (run ext0 cfg0 em2 k2 s2 [Message ''b'' (JNum 3) 4, Message ''a'' (JNum 1) 6])
     = [Emit Request, Transmit (Some ''out'') None False, SetTimeout 10000,
        Emit (Response 4 0 ''u1''), CloseReceiver ''b'',
        Emit (Response 6 0 ''u1''), CloseReceiver ''a'', CloseReceiver ''a'', Callback None]"
  by (simp add: eval_simps)

lemma run_timeout_then_fill:
  "callbacks (effects (run ext0 cfg0 em2 k2 s2
                 [Timeout, Message ''b'' (JNum 3) 4, Message ''a'' (JNum 1) 6]))
     = [Some (ErrString ''response timeout''), None]"
  by (simp add: eval_simps)

lemma run_timeout_then_failure:
  "callbacks (effects (run ext0 cfg0 em2 k2 s2 [Timeout, Message ''a'' (JNum 2) 5]))
     = [Some (ErrString ''response timeout''), Some (ErrString ''data is not valid'')]"
  by (simp add: eval_simps)

lemma f_hook: "f ext0 cfgAccept \<lparr>think = None, emit = Some emHook\<rparr> ctx0 0 0
                 = AwaitingResponses k2 s2"
  unfolding k2_value
  by (simp add: f_def emHook_def em2_def emitTo_def strTruthy_def namespaceKey_def ctx0_def
        isResponseRequired_def Let_def s2_def waitTime_def cfgAccept_def
        correlate_def requiredResponses_def groupBy_def
        channelKey_def dataSpec_def anySpec_def render_def ext0_def)

section \<open>Further properties of the parts\<close>

lemma processResponse_failure_notes:
  "processResponse x d r c = (Some e, c', ns) \<Longrightarrow> c' = c \<and> (\<exists>n. ns = [Error n])"
  by (auto simp: processResponse_def Let_def split: if_splits sum.splits)

lemma f_ignores_emit_timeout:
  "emit spec = Some em \<Longrightarrow>
     f x cfg (spec\<lparr>emit := Some (em\<lparr>emit_timeout := v\<rparr>)\<rparr>) c t0 now = f x cfg spec c t0 now"
  by (simp add: f_def isResponseRequired_def namespaceKey_def correlate_def requiredResponses_def
        endCallback_def Let_def)

section \<open>Properties of processResponse\<close>

lemma processResponse_error_cases:
  "fst (processResponse x d r ctx) \<noteq> None \<longleftrightarrow>
     (dataInvalid x d r \<or>
      ((truthy (rs_capture r) \<or> truthy (rs_match r)) \<and>
       (case captureOrMatch x r (stringify x d) ctx of
          Inl e \<Rightarrow> True
        | Inr result \<Rightarrow> \<exists>kv \<in> set (matches result). \<not> success (snd kv))))"
  by (auto simp: processResponse_def Let_def filter_empty_conv split: sum.splits)




text \<open>
  Claim C10. When the response spec declares neither capture nor match rules and the
  exact-data check, if any, holds, processResponse signals success with the context unchanged
  (so \<open>vars\<close> and \<open>_successCount\<close> are unchanged) and emits nothing. The context changes only on
  the capture/match success path, and there \<open>vars\<close> becomes the old \<open>vars\<close> with the captures
  merged and \<open>$\<close> set to the stringified message, and \<open>_successCount\<close> grows by one.
\<close>

theorem processResponse_plain_success:
  "(\<not> dataInvalid x d r \<and> \<not> truthy (rs_capture r) \<and> \<not> truthy (rs_match r) \<longrightarrow>
      processResponse x d r ctx = (None, ctx, []))
   \<and> (fst (snd (processResponse x d r ctx)) \<noteq> ctx \<longrightarrow>
      fst (processResponse x d r ctx) = None \<and>
      (truthy (rs_capture r) \<or> truthy (rs_match r)) \<and>
      (\<exists>result. captureOrMatch x r (stringify x d) ctx = Inr result \<and>
         (\<forall>kv \<in> set (matches result). success (snd kv)) \<and>
         fst (snd (processResponse x d r ctx)) =
           ctx\<lparr>vars := (mergeCaptures (vars ctx) (captures result))
                          (''$'' \<mapsto> JStr (stringify x d)),
                successCount := successCount ctx + 1\<rparr>))"
  by (auto simp: processResponse_def Let_def filter_empty_conv split: sum.splits if_splits)

theorem processResponse_plain_success_witness:
  "processResponse ext0 (JNum 1) (dataSpec ''a'' (JNum 1)) ctx0 = (None, ctx0, [])
   \<and> processResponse ext0 (JNum 1) (anySpec ''a'') ctx0 = (None, ctx0, [])
   \<and> fst (snd (processResponse ext0 (JNum 1) (captureSpec ''a'') ctx0)) \<noteq> ctx0
   \<and> successCount (fst (snd (processResponse ext0 (JNum 1) (captureSpec ''a'') ctx0))) = 1
   \<and> vars (fst (snd (processResponse ext0 (JNum 1) (captureSpec ''a'') ctx0))) ''$''
       = Some (JStr ''body'')
   \<and> vars (fst (snd (processResponse ext0 (JNum 1) (captureSpec ''a'') ctx0))) ''id''
       = Some (JNum 7)"
proof -
  have h1: "\<not> dataInvalid ext0 (JNum 1) (dataSpec ''a'' (JNum 1))
            \<and> \<not> truthy (rs_capture (dataSpec ''a'' (JNum 1)))
            \<and> \<not> truthy (rs_match (dataSpec ''a'' (JNum 1)))"
    by (simp add: dataInvalid_def ext0_def dataSpec_def)
  have h2: "\<not> dataInvalid ext0 (JNum 1) (anySpec ''a'')
            \<and> \<not> truthy (rs_capture (anySpec ''a''))
            \<and> \<not> truthy (rs_match (anySpec ''a''))"
    by (simp add: dataInvalid_def ext0_def anySpec_def)
  have h3: "fst (snd (processResponse ext0 (JNum 1) (captureSpec ''a'') ctx0)) \<noteq> ctx0"
  proof
    assume "fst (snd (processResponse ext0 (JNum 1) (captureSpec ''a'') ctx0)) = ctx0"
    then have "successCount (fst (snd (processResponse ext0 (JNum 1) (captureSpec ''a'') ctx0)))
                 = successCount ctx0" by simp
    then show False
      by (simp add: processResponse_def dataInvalid_def captureSpec_def ext0_def ctx0_def Let_def)
  qed
  have c: "captureOrMatch ext0 (captureSpec ''a'') (stringify ext0 (JNum 1)) ctx0
             = Inr \<lparr>matches = [], captures = [(''id'', JNum 7)]\<rparr>"
    by (simp add: ext0_def)
  have b: "stringify ext0 (JNum 1) = ''body''" by (simp add: ext0_def)
  from processResponse_plain_success [of ext0 "JNum 1" "captureSpec ''a''" ctx0] h3 c
  have "fst (snd (processResponse ext0 (JNum 1) (captureSpec ''a'') ctx0)) =
           ctx0\<lparr>vars := (mergeCaptures (vars ctx0) [(''id'', JNum 7)])
                          (''$'' \<mapsto> JStr (stringify ext0 (JNum 1))),
                successCount := successCount ctx0 + 1\<rparr>"
    by auto
  then have d: "successCount (fst (snd (processResponse ext0 (JNum 1) (captureSpec ''a'') ctx0))) = 1
     \<and> vars (fst (snd (processResponse ext0 (JNum 1) (captureSpec ''a'') ctx0))) ''$''
       = Some (JStr ''body'')
     \<and> vars (fst (snd (processResponse ext0 (JNum 1) (captureSpec ''a'') ctx0))) ''id''
       = Some (JNum 7)"
    by (simp add: b mergeCaptures_def ctx0_def)
  from h1 h2
       processResponse_plain_success [of ext0 "JNum 1" "dataSpec ''a'' (JNum 1)" ctx0]
       processResponse_plain_success [of ext0 "JNum 1" "anySpec ''a''" ctx0]
  have e: "processResponse ext0 (JNum 1) (dataSpec ''a'' (JNum 1)) ctx0 = (None, ctx0, [])
   \<and> processResponse ext0 (JNum 1) (anySpec ''a'') ctx0 = (None, ctx0, [])" by blast
  from e h3 d show ?thesis by blast
qed

section \<open>The completion callback\<close>

text \<open>
  Claim C1, as the engine has it. The engine keeps no single-fire flag. As long as no
  consumed message has failed validation, the completion callback has been called exactly once
  by the time the timer has fired: by the message that brought the global counter to the
  required count, or else by the timer, with \<open>'response timeout'\<close>. The message that brings
  the counter to the required count calls it once whether it passes or fails validation, and
  from then on neither the timer nor any later event calls it again. When the timer has fired
  with the counter below the required count, the count stays at one as long as no later
  message fails validation or brings the counter to the required count.
\<close>

theorem callback_once_without_early_failure:
  assumes start: "f x cfg spec c t0 now = AwaitingResponses k s0"
    and em: "emit spec = Some em"
    and msgs: "\<forall>e \<in> set evs. isMessage e"
    and ok: "failures (effects (run x cfg em k s0 evs)) = 0"
  shows "length (callbacks (effects (run x cfg em k s0 (evs @ [Timeout])))) = 1
     \<and> (currentResponsesCount (run x cfg em k s0 evs) = requiredResponsesCount k \<longrightarrow>
          (\<forall>later. callbacks (effects (run x cfg em k s0 (evs @ later))) = [None]))
     \<and> (currentResponsesCount (run x cfg em k s0 evs) \<noteq> requiredResponsesCount k \<longrightarrow>
          callbacks (effects (run x cfg em k s0 (evs @ [Timeout])))
            = [Some (ErrString ''response timeout'')])
     \<and> (isMessage m
          \<and> currentResponsesCount (run x cfg em k s0 (evs @ [m])) = requiredResponsesCount k \<longrightarrow>
          (\<forall>later. length (callbacks (effects (run x cfg em k s0 (evs @ [m] @ later)))) = 1))
     \<and> (currentResponsesCount (run x cfg em k s0 evs) \<noteq> requiredResponsesCount k
          \<and> (\<forall>e \<in> set post. isMessage e)
          \<and> failures (effects (run x cfg em k s0 (evs @ Timeout # post))) = 1
          \<and> currentResponsesCount (run x cfg em k s0 (evs @ Timeout # post))
               \<noteq> requiredResponsesCount k \<longrightarrow>
          callbacks (effects (run x cfg em k s0 (evs @ Timeout # post)))
            = [Some (ErrString ''response timeout'')])"
proof -
  let ?s = "run x cfg em k s0 evs"
  from initial_state [OF start] have wf: "wellFormed k" and con: "consistent k s0"
    and acc: "accounted k s0" by simp_all
  have con': "consistent k ?s" using wf con by (rule run_consistent)
  have acc': "accounted k ?s" using wf con acc msgs by (rule run_accounted)
  have cbs: "callbacks (effects ?s)
               = (if currentResponsesCount ?s = requiredResponsesCount k then [None] else [])"
    using acc' ok by (simp add: accounted_def)
  have settled: "currentResponsesCount ?s = requiredResponsesCount k \<Longrightarrow>
                   run x cfg em k s0 (evs @ later) = ?s" for later
    using settled_fixpoint [OF wf con'] by (simp add: run_append)
  have timer: "currentResponsesCount ?s \<noteq> requiredResponsesCount k \<Longrightarrow>
                 callbacks (effects (run x cfg em k s0 (evs @ [Timeout])))
                   = [Some (ErrString ''response timeout'')]"
    using cbs by (simp add: run_snoc responseTimeout_def)
  have 1: "length (callbacks (effects (run x cfg em k s0 (evs @ [Timeout])))) = 1"
    using settled [of "[Timeout]"] timer cbs
    by (cases "currentResponsesCount ?s = requiredResponsesCount k") simp_all
  have 2: "currentResponsesCount ?s = requiredResponsesCount k \<longrightarrow>
          (\<forall>later. callbacks (effects (run x cfg em k s0 (evs @ later))) = [None])"
    using settled cbs by simp
  have 3: "currentResponsesCount ?s \<noteq> requiredResponsesCount k \<longrightarrow>
          callbacks (effects (run x cfg em k s0 (evs @ [Timeout])))
            = [Some (ErrString ''response timeout'')]"
    using timer by simp
  have 4: "isMessage m
          \<and> currentResponsesCount (run x cfg em k s0 (evs @ [m])) = requiredResponsesCount k \<longrightarrow>
          (\<forall>later. length (callbacks (effects (run x cfg em k s0 (evs @ [m] @ later)))) = 1)"
  proof (intro impI allI)
    fix later
    assume a: "isMessage m
          \<and> currentResponsesCount (run x cfg em k s0 (evs @ [m])) = requiredResponsesCount k"
    then obtain channel d now' where m: "m = Message channel d now'" by (cases m) auto
    let ?t = "run x cfg em k s0 (evs @ [m])"
    have cont: "consistent k ?t" using wf con by (rule run_consistent)
    have "run x cfg em k s0 ((evs @ [m]) @ later) = run x cfg em k ?t later"
      by (rule run_append)
    also have "\<dots> = ?t" using settled_fixpoint [OF wf cont] a by simp
    finally have stay: "run x cfg em k s0 (evs @ [m] @ later) = ?t" by simp
    have "length (callbacks (effects ?t)) = 1"
    proof (cases "currentResponsesCount ?s = requiredResponsesCount k")
      case True
      from settled [OF True, of "[m]"] cbs True show ?thesis by simp
    next
      case False
      from a have "currentResponsesCount (onMessage x cfg em k ?s channel d now')
                     = requiredResponsesCount k"
        by (simp add: run_snoc m)
      from fill_calls_once [OF wf con' False this] cbs False show ?thesis
        by (auto simp: run_snoc m)
    qed
    with stay show "length (callbacks (effects (run x cfg em k s0 (evs @ [m] @ later)))) = 1"
      by simp
  qed
  have 5: "currentResponsesCount ?s \<noteq> requiredResponsesCount k
          \<and> (\<forall>e \<in> set post. isMessage e)
          \<and> failures (effects (run x cfg em k s0 (evs @ Timeout # post))) = 1
          \<and> currentResponsesCount (run x cfg em k s0 (evs @ Timeout # post))
               \<noteq> requiredResponsesCount k \<longrightarrow>
          callbacks (effects (run x cfg em k s0 (evs @ Timeout # post)))
            = [Some (ErrString ''response timeout'')]"
  proof
    assume a: "currentResponsesCount ?s \<noteq> requiredResponsesCount k
          \<and> (\<forall>e \<in> set post. isMessage e)
          \<and> failures (effects (run x cfg em k s0 (evs @ Timeout # post))) = 1
          \<and> currentResponsesCount (run x cfg em k s0 (evs @ Timeout # post))
               \<noteq> requiredResponsesCount k"
    let ?u = "run x cfg em k s0 (evs @ [Timeout])"
    have conu: "consistent k ?u" using wf con by (rule run_consistent)
    have split: "run x cfg em k s0 (evs @ Timeout # post) = run x cfg em k ?u post"
      by (simp add: run_def)
    have cu: "callbacks (effects ?u) = [Some (ErrString ''response timeout'')]"
      using timer a by simp
    then have fu: "failures (effects ?u) = 1" by (simp add: failures_def)
    from a have "currentResponsesCount (run x cfg em k ?u post) \<noteq> requiredResponsesCount k"
      by (simp add: split)
    from unfilled_run_calls [OF wf conu _ this] a obtain extra where
      ex: "callbacks (effects (run x cfg em k ?u post)) = callbacks (effects ?u) @ extra"
          "failures (effects (run x cfg em k ?u post)) = failures (effects ?u) + length extra"
      by auto
    from a ex(2) fu have "extra = []" by (simp add: split)
    with ex(1) cu show "callbacks (effects (run x cfg em k s0 (evs @ Timeout # post)))
            = [Some (ErrString ''response timeout'')]"
      by (simp add: split)
  qed
  from 1 2 3 4 5 show ?thesis by blast
qed

theorem callback_once_without_early_failure_witness:
  "f ext0 cfg0 spec2 ctx0 0 0 = AwaitingResponses k2 s2
   \<and> callbacks (effects (run ext0 cfg0 em2 k2 s2
                 ([Message ''b'' (JNum 3) 4, Message ''a'' (JNum 1) 6]
                  @ [Timeout, Message ''a'' (JNum 1) 8]))) = [None]
   \<and> callbacks (effects (run ext0 cfg0 em2 k2 s2 ([Message ''b'' (JNum 3) 4] @ [Timeout])))
       = [Some (ErrString ''response timeout'')]
   \<and> currentResponsesCount (run ext0 cfg0 em2 k2 s2
                               ([Message ''b'' (JNum 3) 4] @ [Message ''a'' (JNum 2) 5]))
       = requiredResponsesCount k2
   \<and> callbacks (effects (run ext0 cfg0 em2 k2 s2
                 ([Message ''b'' (JNum 3) 4] @ [Message ''a'' (JNum 2) 5])))
       = [Some (ErrString ''data is not valid'')]
   \<and> length (callbacks (effects (run ext0 cfg0 em2 k2 s2
                 ([Message ''b'' (JNum 3) 4] @ [Message ''a'' (JNum 2) 5]
                  @ [Timeout, Message ''a'' (JNum 1) 8, Timeout])))) = 1
   \<and> callbacks (effects (run ext0 cfg0 em2 k2 s2 ([] @ Timeout # [Message ''b'' (JNum 3) 4])))
       = [Some (ErrString ''response timeout'')]"
proof -
  have h1: "emit spec2 = Some em2" by (simp add: spec2_def)
  have h0: "\<forall>e \<in> set ([] :: event list). isMessage e" by simp
  have h2: "\<forall>e \<in> set [Message ''b'' (JNum 3) 4, Message ''a'' (JNum 1) 6]. isMessage e" by simp
  have h3: "\<forall>e \<in> set [Message ''b'' (JNum 3) 4]. isMessage e" by simp
  have ok0: "failures (effects (run ext0 cfg0 em2 k2 s2 [])) = 0"
    by (simp add: eval_simps)
  have ok2: "failures (effects (run ext0 cfg0 em2 k2 s2
                          [Message ''b'' (JNum 3) 4, Message ''a'' (JNum 1) 6])) = 0"
    by (simp add: run_ok failures_def callbacks_def)
  have ok1: "failures (effects (run ext0 cfg0 em2 k2 s2 [Message ''b'' (JNum 3) 4])) = 0"
    by (simp add: eval_simps)
  have full: "currentResponsesCount (run ext0 cfg0 em2 k2 s2
                          [Message ''b'' (JNum 3) 4, Message ''a'' (JNum 1) 6])
                = requiredResponsesCount k2"
    by (simp add: eval_simps)
  have part: "currentResponsesCount (run ext0 cfg0 em2 k2 s2 [Message ''b'' (JNum 3) 4])
                \<noteq> requiredResponsesCount k2"
    by (simp add: eval_simps)
  have none: "currentResponsesCount (run ext0 cfg0 em2 k2 s2 []) \<noteq> requiredResponsesCount k2"
    by (simp add: eval_simps)
  have fill: "isMessage (Message ''a'' (JNum 2) 5)
     \<and> currentResponsesCount (run ext0 cfg0 em2 k2 s2
                               ([Message ''b'' (JNum 3) 4] @ [Message ''a'' (JNum 2) 5]))
       = requiredResponsesCount k2"
    by (simp add: eval_simps)
  have failed: "callbacks (effects (run ext0 cfg0 em2 k2 s2
                 ([Message ''b'' (JNum 3) 4] @ [Message ''a'' (JNum 2) 5])))
       = [Some (ErrString ''data is not valid'')]"
    by (simp add: eval_simps)
  have late: "(\<forall>e \<in> set [Message ''b'' (JNum 3) 4]. isMessage e)
     \<and> failures (effects (run ext0 cfg0 em2 k2 s2 ([] @ Timeout # [Message ''b'' (JNum 3) 4]))) = 1
     \<and> currentResponsesCount (run ext0 cfg0 em2 k2 s2 ([] @ Timeout # [Message ''b'' (JNum 3) 4]))
          \<noteq> requiredResponsesCount k2"
    by (simp add: eval_simps)
  from callback_once_without_early_failure [OF f_spec2 h1 h2 ok2] full
  have a: "callbacks (effects (run ext0 cfg0 em2 k2 s2
                 ([Message ''b'' (JNum 3) 4, Message ''a'' (JNum 1) 6]
                  @ [Timeout, Message ''a'' (JNum 1) 8]))) = [None]"
    by blast
  from callback_once_without_early_failure [OF f_spec2 h1 h3 ok1] part
  have b: "callbacks (effects (run ext0 cfg0 em2 k2 s2 ([Message ''b'' (JNum 3) 4] @ [Timeout])))
       = [Some (ErrString ''response timeout'')]"
    by blast
  from callback_once_without_early_failure
         [OF f_spec2 h1 h3 ok1, of "Message ''a'' (JNum 2) 5"] fill
  have c: "length (callbacks (effects (run ext0 cfg0 em2 k2 s2
                 ([Message ''b'' (JNum 3) 4] @ [Message ''a'' (JNum 2) 5]
                  @ [Timeout, Message ''a'' (JNum 1) 8, Timeout])))) = 1"
    by blast
  from callback_once_without_early_failure
         [OF f_spec2 h1 h0 ok0, of _ "[Message ''b'' (JNum 3) 4]"] none late
  have d: "callbacks (effects (run ext0 cfg0 em2 k2 s2 ([] @ Timeout # [Message ''b'' (JNum 3) 4])))
       = [Some (ErrString ''response timeout'')]"
    by blast
  from f_spec2 a b fill failed c d show ?thesis by blast
qed

text \<open>
  As the claim states it, exactly one call whatever happens, it fails in the remaining runs.
  A message that fails validation and leaves the counter below the required count calls the
  callback, and the timer calls it again. After a timer that fired with the counter below the
  required count, the message that brings the counter to the required count calls it again,
  and so does a message that fails validation.
\<close>

theorem callback_twice_counterexample:
  "f ext0 cfg0 spec2 ctx0 0 0 = AwaitingResponses k2 s2
   \<and> callbacks (effects (run ext0 cfg0 em2 k2 s2 [Message ''a'' (JNum 2) 5, Timeout]))
       = [Some (ErrString ''data is not valid''), Some (ErrString ''response timeout'')]
   \<and> length (callbacks (effects (run ext0 cfg0 em2 k2 s2 [Message ''a'' (JNum 2) 5, Timeout])))
       \<noteq> 1
   \<and> callbacks (effects (run ext0 cfg0 em2 k2 s2
                 [Timeout, Message ''b'' (JNum 3) 4, Message ''a'' (JNum 1) 6]))
       = [Some (ErrString ''response timeout''), None]
   \<and> callbacks (effects (run ext0 cfg0 em2 k2 s2 [Timeout, Message ''a'' (JNum 2) 5]))
       = [Some (ErrString ''response timeout''), Some (ErrString ''data is not valid'')]"
  using f_spec2 run_fail_then_timeout run_timeout_then_fill run_timeout_then_failure by simp

section \<open>Success and matching order\<close>




section \<open>Validation failure\<close>

text \<open>
  Claim C3, as the engine has it. When a consumed message fails validation, one error
  notification is emitted, \<open>closeReceiver\<close> is called (twice) for the channel of the
  message, the callback receives the error, the context is unchanged, and no further message
  on that channel is processed. The listeners of the other channels of the step are left as
  they were.
\<close>

theorem validation_failure_closes_its_channel:
  assumes open_: "channel \<in> set (listening s)"
    and hook: "callHook cfg em d (at (responsesOf k channel) (index s channel)) (sctx s)
                 = Decided True hs"
    and spec: "at (responsesOf k channel) (index s channel + 1) = Some r"
    and invalid: "processResponse x d r (sctx s) = (Some e, c', ns)"
  shows "effects (onMessage x cfg em k s channel d now)
           = effects s @ hs @ map Emit ns
               @ [CloseReceiver channel, CloseReceiver channel, Callback (Some e)]
     \<and> (\<exists>n. ns = [Error n])
     \<and> sctx (onMessage x cfg em k s channel d now) = sctx s
     \<and> listening (onMessage x cfg em k s channel d now) = removeAll channel (listening s)
     \<and> (\<forall>d' now'. onMessage x cfg em k (onMessage x cfg em k s channel d now) channel d' now'
                     = onMessage x cfg em k s channel d now)
     \<and> (\<forall>other. other \<noteq> channel \<longrightarrow>
          (other \<in> set (listening (onMessage x cfg em k s channel d now))
             \<longleftrightarrow> other \<in> set (listening s)))"
proof -
  from processResponse_failure_notes [OF invalid] have c': "c' = sctx s" and ns: "\<exists>n. ns = [Error n]"
    by simp_all
  have eq: "onMessage x cfg em k s channel d now =
      s\<lparr>currentResponsesCount := currentResponsesCount s + 1,
        index := (index s)(channel := index s channel + 1),
        listening := removeAll channel (listening s),
        sctx := c',
        effects := effects s @ hs @ map Emit ns
               @ [CloseReceiver channel, CloseReceiver channel, Callback (Some e)]\<rparr>"
    using open_ hook spec invalid by (simp add: onMessage_def Let_def)
  have closed: "channel \<notin> set (listening (onMessage x cfg em k s channel d now))"
    by (simp add: eq)
  have stop: "onMessage x cfg em k (onMessage x cfg em k s channel d now) channel d' now'
                     = onMessage x cfg em k s channel d now" for d' now'
    using closed by (simp add: onMessage_def [of x cfg em k "onMessage x cfg em k s channel d now"])
  from ns stop show ?thesis by (simp add: eq c')
qed

theorem validation_failure_closes_its_channel_witness:
  "''a'' \<in> set (listening s2)
   \<and> processResponse ext0 (JNum 2) (dataSpec ''a'' (JNum 1)) (sctx s2)
       = (Some (ErrString ''data is not valid''), ctx0, [Error (ErrString ''data is not valid'')])
   \<and> effects (onMessage ext0 cfg0 em2 k2 s2 ''a'' (JNum 2) 5)
       = effects s2 @ [Emit (Error (ErrString ''data is not valid'')),
                       CloseReceiver ''a'', CloseReceiver ''a'',
                       Callback (Some (ErrString ''data is not valid''))]
   \<and> listening (onMessage ext0 cfg0 em2 k2 s2 ''a'' (JNum 2) 5) = [''b'']"
proof -
  have h1: "''a'' \<in> set (listening s2)" by (simp add: s2_def)
  have h2: "callHook cfg0 em2 (JNum 2) (at (responsesOf k2 ''a'') (index s2 ''a'')) (sctx s2)
              = Decided True []"
    by (simp add: callHook_def em2_def emitTo_def)
  have h3: "at (responsesOf k2 ''a'') (index s2 ''a'' + 1) = Some (dataSpec ''a'' (JNum 1))"
    by (simp add: at_def responsesOf_def k2_value s2_def)
  have h4: "processResponse ext0 (JNum 2) (dataSpec ''a'' (JNum 1)) (sctx s2)
       = (Some (ErrString ''data is not valid''), ctx0, [Error (ErrString ''data is not valid'')])"
    by (simp add: processResponse_def dataInvalid_def dataSpec_def ext0_def s2_def)
  from validation_failure_closes_its_channel [OF h1 h2 h3 h4, of 5] h1 h4
  show ?thesis by (simp add: s2_def)
qed

text \<open>
  As the claim states it, every listener of the step closed, it fails: after the failure on
  channel \<open>a\<close> the listener of channel \<open>b\<close> is still consuming, and the next message on
  \<open>b\<close> is validated and calls the callback once more.
\<close>

theorem other_listeners_stay_open_counterexample:
  "f ext0 cfg0 spec2 ctx0 0 0 = AwaitingResponses k2 s2
   \<and> listening (run ext0 cfg0 em2 k2 s2 [Message ''a'' (JNum 2) 5]) = [''b'']
   \<and> effects (run ext0 cfg0 em2 k2 s2 [Message ''a'' (JNum 2) 5, Message ''b'' (JNum 3) 7])
       = [Emit Request, Transmit (Some ''out'') None False, SetTimeout 10000,
          Emit (Error (ErrString ''data is not valid'')), CloseReceiver ''a'', CloseReceiver ''a'',
          Callback (Some (ErrString ''data is not valid'')),
          Emit (Response 7 0 ''u1''), CloseReceiver ''b'', CloseReceiver ''b'', Callback None]"
proof -
  have "listening (run ext0 cfg0 em2 k2 s2 [Message ''a'' (JNum 2) 5]) = [''b'']"
    by (simp add: eval_simps)
  with f_spec2 run_fail_then_other show ?thesis by simp
qed

section \<open>Invalid arguments\<close>

text \<open>
  Claim C4, evaluated on the engine. With no channel in the emit spec, or with no client
  stored for the namespace, \<open>f\<close> emits \<open>request\<close> and the \<open>'invalid arguments'\<close> error and
  returns; nothing is transmitted, and the completion callback is not called.
\<close>

theorem invalid_arguments_without_callback:
  "f ext0 cfg0 \<lparr>think = None, emit = Some (em2\<lparr>emit_channel := None\<rparr>)\<rparr> ctx0 0 0
     = Finished ctx0 [Emit Request, Emit (Error (ErrString ''invalid arguments''))]
   \<and> f ext0 cfg0 \<lparr>think = None, emit = Some emChat\<rparr> ctx0 0 0
     = Finished ctx0 [Emit Request, Emit (Error (ErrString ''invalid arguments''))]
   \<and> sockets ctx0 ''/chat'' = None
   \<and> callbacks [Emit Request, Emit (Error (ErrString ''invalid arguments''))] = []"
  by (simp add: f_def emChat_def em2_def emitTo_def strTruthy_def namespaceKey_def ctx0_def
        callbacks_def)

section \<open>Connection errors\<close>

text \<open>
  Claim C5, evaluated on the engine. For a namespace without a stored client a client is
  created; when its first notification is an error, the error is written to the console, the
  function passed as \<open>cb\<close> is not called, and so neither an \<open>error\<close> notification nor a call
  of the step's callback follows.
\<close>

theorem connection_error_only_logged:
  "map_option (\<lambda>r. snd (snd r)) (preStep ext0 \<lparr>think = None, emit = Some emChat\<rparr> ctx0 2)
     = Some (Created 2)
   \<and> notified (Created 2) [SocketError ''refused''] = [ConsoleError ''refused'']
   \<and> map (preStepCb ext0 cfg0 \<lparr>think = None, emit = Some emChat\<rparr> ctx0 0 0)
          (notified (Created 2) [SocketError ''refused'']) = [None]"
  by (simp add: preStep_def loadContextSocket_def emChat_def em2_def emitTo_def ext0_def ctx0_def
        preStepCb_def Let_def)

section \<open>The beforeResponse hook\<close>

text \<open>
  Claim C6, evaluated on the engine. For the first message on channel \<open>a\<close> the hook is
  called with \<open>responses[-1]\<close>, that is \<open>undefined\<close>, while the message is then validated
  against \<open>responses[0]\<close>, whose data expectation it fails. When the hook returns false the
  message is ignored: only the call of the hook is added to the effects.
\<close>

theorem hook_receives_previous_spec:
  "f ext0 cfgAccept \<lparr>think = None, emit = Some emHook\<rparr> ctx0 0 0 = AwaitingResponses k2 s2
   \<and> effects (onMessage ext0 cfgAccept emHook k2 s2 ''a'' (JNum 2) 5)
       = effects s2 @ [Invoke ''h'' (JNum 2) None,
                       Emit (Error (ErrString ''data is not valid'')),
                       CloseReceiver ''a'', CloseReceiver ''a'',
                       Callback (Some (ErrString ''data is not valid''))]
   \<and> at (responsesOf k2 ''a'') 0 = Some (dataSpec ''a'' (JNum 1))
   \<and> onMessage ext0 cfgReject emHook k2 s2 ''a'' (JNum 2) 5
       = s2\<lparr>effects := effects s2 @ [Invoke ''h'' (JNum 2) None]\<rparr>"
proof -
  have a: "effects (onMessage ext0 cfgAccept emHook k2 s2 ''a'' (JNum 2) 5)
       = effects s2 @ [Invoke ''h'' (JNum 2) None,
                       Emit (Error (ErrString ''data is not valid'')),
                       CloseReceiver ''a'', CloseReceiver ''a'',
                       Callback (Some (ErrString ''data is not valid''))]"
    by (simp add: onMessage_def callHook_def at_def responsesOf_def processResponse_def
          dataInvalid_def Let_def k2_value s2_def emHook_def em2_def emitTo_def dataSpec_def
          ext0_def cfgAccept_def)
  have b: "at (responsesOf k2 ''a'') 0 = Some (dataSpec ''a'' (JNum 1))"
    by (simp add: at_def responsesOf_def k2_value)
  have c: "onMessage ext0 cfgReject emHook k2 s2 ''a'' (JNum 2) 5
       = s2\<lparr>effects := effects s2 @ [Invoke ''h'' (JNum 2) None]\<rparr>"
    by (simp add: onMessage_def callHook_def at_def responsesOf_def 
          Let_def k2_value s2_def emHook_def em2_def emitTo_def cfgReject_def)
  from f_hook a b c show ?thesis by blast
qed

section \<open>Latency\<close>

text \<open>
  Claim C7, as the engine has it. A \<open>response\<close> notification with the time since
  \<open>startedAt\<close> is emitted for every consumed message that passes validation, whether or not it
  completes the step; none is emitted for a message that fails validation, and none by the
  timer.
\<close>

theorem latency_recorded_per_valid_message:
  "latencies (effects (responseTimeout k s)) = latencies (effects s)
   \<and> (channel \<in> set (listening s)
        \<and> callHook cfg em d (at (responsesOf k channel) (index s channel)) (sctx s) = Decided True hs
        \<and> at (responsesOf k channel) (index s channel + 1) = Some r
        \<and> processResponse x d r (sctx s) = (err, c', ns) \<longrightarrow>
      latencies (effects (onMessage x cfg em k s channel d now))
        = latencies (effects s)
            @ (if err = None then [Emit (Response (now - startedAt k) 0 (uid c'))] else []))
   \<and> (callHook cfg em d (at (responsesOf k channel) (index s channel)) (sctx s) = Decided False hs
        \<longrightarrow> latencies (effects (onMessage x cfg em k s channel d now)) = latencies (effects s))
   \<and> (channel \<notin> set (listening s)
        \<longrightarrow> latencies (effects (onMessage x cfg em k s channel d now)) = latencies (effects s))"
proof (intro conjI impI)
  show "latencies (effects (responseTimeout k s)) = latencies (effects s)"
    by (simp add: responseTimeout_def)
next
  assume a: "channel \<in> set (listening s)
        \<and> callHook cfg em d (at (responsesOf k channel) (index s channel)) (sctx s) = Decided True hs
        \<and> at (responsesOf k channel) (index s channel + 1) = Some r
        \<and> processResponse x d r (sctx s) = (err, c', ns)"
  then have hk: "latencies hs = []" using callbacks_hook by blast
  from a have pr: "latencies (map Emit ns) = []" using processResponse_notes by blast
  have m: "latencies [markEndTime c' (startedAt k) now] = [markEndTime c' (startedAt k) now]"
    by simp
  from a hk pr m show "latencies (effects (onMessage x cfg em k s channel d now))
        = latencies (effects s)
            @ (if err = None then [Emit (Response (now - startedAt k) 0 (uid c'))] else [])"
    by (simp add: onMessage_def Let_def) (simp add: markEndTime_def)
next
  assume a: "callHook cfg em d (at (responsesOf k channel) (index s channel)) (sctx s)
               = Decided False hs"
  then have "latencies hs = []" using callbacks_hook by blast
  with a show "latencies (effects (onMessage x cfg em k s channel d now)) = latencies (effects s)"
    by (simp add: onMessage_def)
next
  assume "channel \<notin> set (listening s)"
  then show "latencies (effects (onMessage x cfg em k s channel d now)) = latencies (effects s)"
    by (simp add: onMessage_def)
qed

theorem latency_recorded_per_valid_message_witness:
  "latencies (effects (onMessage ext0 cfg0 em2 k2 s2 ''b'' (JNum 3) 4))
     = [Emit (Response 4 0 ''u1'')]
   \<and> latencies (effects (onMessage ext0 cfg0 em2 k2 s2 ''a'' (JNum 2) 5)) = []
   \<and> latencies (effects (responseTimeout k2 s2)) = []"
proof -
  have l0: "latencies (effects s2) = []" by (simp add: s2_def latencies_def)
  have a1: "''b'' \<in> set (listening s2)
        \<and> callHook cfg0 em2 (JNum 3) (at (responsesOf k2 ''b'') (index s2 ''b'')) (sctx s2)
            = Decided True []
        \<and> at (responsesOf k2 ''b'') (index s2 ''b'' + 1) = Some (anySpec ''b'')
        \<and> processResponse ext0 (JNum 3) (anySpec ''b'') (sctx s2) = (None, ctx0, [])"
    by (simp add: s2_def callHook_def em2_def emitTo_def at_def responsesOf_def k2_value
          processResponse_def dataInvalid_def anySpec_def)
  have a2: "''a'' \<in> set (listening s2)
        \<and> callHook cfg0 em2 (JNum 2) (at (responsesOf k2 ''a'') (index s2 ''a'')) (sctx s2)
            = Decided True []
        \<and> at (responsesOf k2 ''a'') (index s2 ''a'' + 1) = Some (dataSpec ''a'' (JNum 1))
        \<and> processResponse ext0 (JNum 2) (dataSpec ''a'' (JNum 1)) (sctx s2)
            = (Some (ErrString ''data is not valid''), ctx0,
               [Error (ErrString ''data is not valid'')])"
    by (simp add: s2_def callHook_def em2_def emitTo_def at_def responsesOf_def k2_value
          processResponse_def dataInvalid_def dataSpec_def ext0_def)
  have u: "uid ctx0 = ''u1''" "startedAt k2 = 0" by (simp_all add: ctx0_def k2_value)
  from latency_recorded_per_valid_message
         [of k2 s2 "''b''" cfg0 em2 "JNum 3" "[]" "anySpec ''b''" ext0 None ctx0 "[]" 4]
       latency_recorded_per_valid_message
         [of k2 s2 "''a''" cfg0 em2 "JNum 2" "[]" "dataSpec ''a'' (JNum 1)" ext0
             "Some (ErrString ''data is not valid'')" ctx0
             "[Error (ErrString ''data is not valid'')]" 5]
       a1 a2 l0 u
  show ?thesis by simp
qed

text \<open>
  As the claim states it, latency recorded when the step is declared complete by a
  validation failure, it fails: the step ends with \<open>'data is not valid'\<close> and no
  \<open>response\<close> notification.
\<close>

theorem no_latency_on_validation_failure_counterexample:
  "f ext0 cfg0 spec2 ctx0 0 0 = AwaitingResponses k2 s2
   \<and> completion (effects (run ext0 cfg0 em2 k2 s2 [Message ''a'' (JNum 2) 5]))
       = Some (Some (ErrString ''data is not valid''))
   \<and> latencies (effects (run ext0 cfg0 em2 k2 s2 [Message ''a'' (JNum 2) 5])) = []"
proof -
  have "completion (effects (run ext0 cfg0 em2 k2 s2 [Message ''a'' (JNum 2) 5]))
       = Some (Some (ErrString ''data is not valid''))"
    by (simp add: eval_simps)
  moreover have "latencies (effects (run ext0 cfg0 em2 k2 s2 [Message ''a'' (JNum 2) 5])) = []"
    by (simp add: eval_simps)
  ultimately show ?thesis using f_spec2 by simp
qed

section \<open>The timeout\<close>

text \<open>
  Claim C8, as the engine has it. The timer of an emit step with responses is armed with the
  scenario timeout when it is set and not zero, otherwise 10, times 1000; a step-level timeout
  changes nothing.
\<close>

theorem armed_timeout_is_scenario_timeout:
  assumes start: "f x cfg spec c t0 now = AwaitingResponses k s"
    and em: "emit spec = Some em"
  shows "(\<forall>w. SetTimeout w \<in> set (effects s) \<longleftrightarrow>
            w = (case timeout cfg of None \<Rightarrow> 10 | Some t \<Rightarrow> if t = 0 then 10 else t) * 1000)
     \<and> (\<forall>v. f x cfg (spec\<lparr>emit := Some (em\<lparr>emit_timeout := v\<rparr>)\<rparr>) c t0 now
               = AwaitingResponses k s)"
proof -
  from start obtain em' where "emit spec = Some em'"
    "effects s = [Emit Request,
                  Transmit (templateStr x (emit_channel em') c) (template x (emit_data em') c) False,
                  SetTimeout (waitTime cfg)]"
    by (auto elim!: f_awaiting)
  then have "\<forall>w. SetTimeout w \<in> set (effects s) \<longleftrightarrow>
            w = (case timeout cfg of None \<Rightarrow> 10 | Some t \<Rightarrow> if t = 0 then 10 else t) * 1000"
    by (auto simp: waitTime_def)
  moreover have "\<forall>v. f x cfg (spec\<lparr>emit := Some (em\<lparr>emit_timeout := v\<rparr>)\<rparr>) c t0 now
               = AwaitingResponses k s"
    using f_ignores_emit_timeout [OF em] start by simp
  ultimately show ?thesis by blast
qed

theorem armed_timeout_is_scenario_timeout_witness:
  "f ext0 cfg0 spec2 ctx0 0 0 = AwaitingResponses k2 s2
   \<and> SetTimeout 10000 \<in> set (effects s2)
   \<and> f ext0 cfg0 (spec2\<lparr>emit := Some (em2\<lparr>emit_timeout := Some 5\<rparr>)\<rparr>) ctx0 0 0
       = AwaitingResponses k2 s2"
proof -
  have h: "emit spec2 = Some em2" by (simp add: spec2_def)
  have t: "timeout cfg0 = None" by (simp add: cfg0_def)
  from armed_timeout_is_scenario_timeout [OF f_spec2 h] f_spec2 t
  show ?thesis by simp
qed

text \<open>
  As the claim states it, the step-level override first, it fails: with a step-level timeout
  of 5 and a scenario timeout of 20 the timer is armed with 20000, not 5000.
\<close>

theorem step_timeout_ignored_counterexample:
  "outcomeEffects (f ext0 cfg20 \<lparr>think = None, emit = Some em5\<rparr> ctx0 0 0)
     = [Emit Request, Transmit (Some ''out'') None False, SetTimeout 20000]
   \<and> emit_timeout em5 = Some 5
   \<and> spec_waitTime cfg20 em5 = 5000"
  by (simp add: f_def em5_def em2_def emitTo_def cfg20_def strTruthy_def namespaceKey_def ctx0_def
        isResponseRequired_def Let_def waitTime_def ext0_def dataSpec_def outcomeEffects_def
        spec_waitTime_def)

end
